(* ===== verification/Prelude.thy ===== *)
theory Prelude
  imports Main "HOL-Library.Word"
begin

text \<open>
  Shared material of the development: the machine types, the arithmetic of \<^verbatim>\<open>size_t\<close>,
  \<^verbatim>\<open>std::to_string\<close>, the faults that stand for undefined behaviour of the C++ code,
  and the list lemmas the components use.
\<close>

type_synonym byte = "8 word"
type_synonym u16 = "16 word"
type_synonym u32 = "32 word"
type_synonym u64 = "64 word"

text \<open>
  Facts about the wire format are collected in \<open>wire\<close>, for \<open>simp add: wire\<close>.
\<close>

named_theorems wire

section \<open>Faults\<close>

text \<open>
  What the C++ code may run into that no return value describes: undefined behaviour
  (a null pointer dereferenced, memory accessed outside an object, an integer divided by
  zero, a block freed twice) and exceptions.
\<close>

datatype fault =
    Null_Dereference
  | Out_Of_Bounds_Read
  | Out_Of_Bounds_Write
  | Division_By_Zero
  | Invalid_Free
  | Bad_Alloc
  | Invalid_Argument string

section \<open>The arithmetic of size_t\<close>

text \<open>A \<^verbatim>\<open>size_t\<close> has 64 bits; it is kept as a natural number and wraps explicitly.\<close>

definition size_t_bound :: nat where
  "size_t_bound = 2 ^ 64"

definition add_size :: "nat \<Rightarrow> nat \<Rightarrow> nat" where
  "add_size a b = (a + b) mod size_t_bound"

definition sub_size :: "nat \<Rightarrow> nat \<Rightarrow> nat" where
  "sub_size a b = (if b \<le> a then a - b else a + size_t_bound - b)"

lemma add_size_small [simp]: "a + b < size_t_bound \<Longrightarrow> add_size a b = a + b"
  by (simp add: add_size_def)

lemma sub_size_le [simp]: "b \<le> a \<Longrightarrow> sub_size a b = a - b"
  by (simp add: sub_size_def)

lemma sub_size_pos: "a \<noteq> b \<Longrightarrow> b < size_t_bound \<Longrightarrow> 0 < sub_size a b"
  by (auto simp: sub_size_def)

text \<open>A \<^verbatim>\<open>for\<close> loop that adds up sizes in a \<^verbatim>\<open>size_t\<close>.\<close>

lemma fold_add_size:
  "x + sum_list ns < size_t_bound \<Longrightarrow> fold (\<lambda>n s. add_size s n) ns x = x + sum_list ns"
  by (induction ns arbitrary: x) auto

text \<open>The same in a \<^verbatim>\<open>uint32_t\<close>, each summand converted first.\<close>

lemma fold_add_u32:
  "fold (\<lambda>n s. s + (of_nat n :: u32)) ns x = x + of_nat (sum_list ns)"
  by (induction ns arbitrary: x) (auto simp: algebra_simps)

lemma unat_of_nat_u32: "n < 2 ^ 32 \<Longrightarrow> unat (of_nat n :: u32) = n"
  by (simp add: unat_of_nat take_bit_nat_eq_self)

lemma of_nat_u32_nonzero: "0 < n \<Longrightarrow> n < 2 ^ 32 \<Longrightarrow> of_nat n \<noteq> (0 :: u32)"
  using unat_of_nat_u32 [of n] by auto

lemma of_nat_u32_inject:
  "m < 2 ^ 32 \<Longrightarrow> n < 2 ^ 32 \<Longrightarrow> (of_nat m :: u32) = of_nat n \<longleftrightarrow> m = n"
  by (metis unat_of_nat_u32)

lemma unat_u32_less: "unat (x :: u32) < 2 ^ 32"
  using unsigned_less [of x] by simp

section \<open>Decimal numbers\<close>

text \<open>\<^verbatim>\<open>std::to_string\<close> on unsigned and on signed integers.\<close>

fun to_string :: "nat \<Rightarrow> string" where
  "to_string n =
     (if n < 10 then [char_of (48 + n)] else to_string (n div 10) @ [char_of (48 + n mod 10)])"

declare to_string.simps [simp del]

definition to_string_int :: "int \<Rightarrow> string" where
  "to_string_int i = (if i < 0 then CHR ''-'' # to_string (nat (- i)) else to_string (nat i))"

lemma to_string_nonempty: "to_string n \<noteq> []"
  by (subst to_string.simps) simp

section \<open>Lists\<close>

text \<open>The bytes at an offset, and the same bytes overwritten.\<close>

definition slice :: "nat \<Rightarrow> nat \<Rightarrow> 'a list \<Rightarrow> 'a list" where
  "slice off n xs = take n (drop off xs)"

definition overwrite :: "nat \<Rightarrow> 'a list \<Rightarrow> 'a list \<Rightarrow> 'a list" where
  "overwrite off ys xs = take off xs @ ys @ drop (off + length ys) xs"

lemma length_slice [simp]: "length (slice off n xs) = min n (length xs - off)"
  by (simp add: slice_def)

lemma length_overwrite [simp]:
  "off + length ys \<le> length xs \<Longrightarrow> length (overwrite off ys xs) = length xs"
  by (simp add: overwrite_def)

lemma slice_0_all [simp]: "length xs \<le> n \<Longrightarrow> slice 0 n xs = xs"
  by (simp add: slice_def)

lemma slice_empty [simp]: "slice off 0 xs = []"
  by (simp add: slice_def)

lemma slice_append_right:
  "length xs \<le> off \<Longrightarrow> slice off n (xs @ ys) = slice (off - length xs) n ys"
  by (simp add: slice_def)

lemma slice_overwrite_same:
  "off + length ys \<le> length xs \<Longrightarrow> slice off (length ys) (overwrite off ys xs) = ys"
  by (simp add: slice_def overwrite_def)

lemma overwrite_append:
  "length pre = off \<Longrightarrow> length mid = length ys \<Longrightarrow>
     overwrite off ys (pre @ mid @ rest) = pre @ ys @ rest"
  by (simp add: overwrite_def)

lemma slice_append_exact:
  "length pre = off \<Longrightarrow> length mid = n \<Longrightarrow> slice off n (pre @ mid @ rest) = mid"
  by (simp add: slice_def)

lemma slice_overwrite_before:
  assumes "off' + n \<le> off" "off \<le> length xs"
  shows "slice off' n (overwrite off ys xs) = slice off' n xs"
proof -
  have "take n (drop off' (take off xs)) = take n (drop off' xs)"
    using assms by (simp add: drop_take min_def)
  then show ?thesis using assms by (simp add: slice_def overwrite_def)
qed

lemma slice_overwrite_after:
  assumes "off + length ys \<le> off'" "off + length ys \<le> length xs"
  shows "slice off' n (overwrite off ys xs) = slice off' n xs"
  using assms by (simp add: slice_def overwrite_def)

lemma slice_add:
  "slice off (m + n) xs = slice off m xs @ slice (off + m) n xs"
  by (simp add: slice_def take_add add.commute)

lemma slice_slice:
  "m + k \<le> n \<Longrightarrow> slice m k (slice off n xs) = slice (off + m) k xs"
  by (simp add: slice_def drop_take add.commute)

text \<open>\<^verbatim>\<open>std::vector::resize\<close>: cut off at the end, or filled up with a default value.\<close>

definition vector_resize :: "'a \<Rightarrow> nat \<Rightarrow> 'a list \<Rightarrow> 'a list" where
  "vector_resize x n xs = take n xs @ replicate (n - length xs) x"

lemma length_vector_resize [simp]: "length (vector_resize x n xs) = n"
  by (simp add: vector_resize_def)

lemma nth_vector_resize:
  "i < n \<Longrightarrow> vector_resize x n xs ! i = (if i < length xs then xs ! i else x)"
  by (simp add: vector_resize_def nth_append)

lemma vector_resize_same [simp]: "vector_resize x (length xs) xs = xs"
  by (simp add: vector_resize_def)

text \<open>A list cut into pieces of \<open>p\<close> elements; the last one may be shorter.\<close>

function chunks :: "nat \<Rightarrow> 'a list \<Rightarrow> 'a list list" where
  "chunks p xs = (if p = 0 \<or> xs = [] then [] else take p xs # chunks p (drop p xs))"
  by pat_completeness auto
termination
  by (relation "measure (\<lambda>(p, xs). length xs)") auto

declare chunks.simps [simp del]

lemma chunks_Nil [simp]: "chunks p [] = []"
  by (simp add: chunks.simps)

lemma chunks_step: "0 < p \<Longrightarrow> xs \<noteq> [] \<Longrightarrow> chunks p xs = take p xs # chunks p (drop p xs)"
  by (subst chunks.simps) simp

lemma chunks_append:
  "0 < p \<Longrightarrow> length xs = p \<Longrightarrow> chunks p (xs @ ys) = xs # chunks p ys"
  by (subst chunks.simps) auto

lemma concat_chunks [simp]: "0 < p \<Longrightarrow> concat (chunks p xs) = xs"
  by (induction p xs rule: chunks.induct) (subst chunks.simps, auto)

lemma chunks_bounds: "c \<in> set (chunks p xs) \<Longrightarrow> c \<noteq> [] \<and> length c \<le> p"
proof (induction p xs rule: chunks.induct)
  case (1 p xs)
  then show ?case
    by (subst (asm) (2) chunks.simps) (auto split: if_splits)
qed

lemma ceiling_step:
  assumes "0 < p" "0 < n"
  shows "(n + (p - 1)) div p = Suc ((n - p + (p - 1)) div (p::nat))"
proof (cases "p \<le> n")
  case True
  then have "n + (p - 1) = (n - p + (p - 1)) + p" by simp
  with assms show ?thesis by (simp only: div_add_self2)
next
  case False
  with assms have "n + (p - 1) = (n - 1) + p" and "(n - 1) div p = 0" by auto
  then have "(n + (p - 1)) div p = Suc 0" using assms by (simp only: div_add_self2)
  with False assms show ?thesis by simp
qed

lemma length_chunks: "0 < p \<Longrightarrow> length (chunks p xs) = (length xs + (p - 1)) div p"
proof (induction p xs rule: chunks.induct)
  case (1 p xs)
  show ?case
  proof (cases "xs = []")
    case False
    with "1" have "length (chunks p xs) = Suc ((length xs - p + (p - 1)) div p)"
      by (simp add: chunks_step)
    with False "1.prems" show ?thesis
      by (simp only: ceiling_step [of p "length xs"] length_greater_0_conv not_False_eq_True)
  qed (use "1.prems" in simp)
qed


text \<open>The piece number \<open>k\<close> starts at the offset \<open>k * p\<close>.\<close>

lemma nth_chunks: "k < length (chunks p xs) \<Longrightarrow> chunks p xs ! k = slice (k * p) p xs"
proof (induction p xs arbitrary: k rule: chunks.induct)
  case (1 p xs)
  show ?case
  proof (cases "p = 0 \<or> xs = []")
    case True
    with "1.prems" show ?thesis by (simp add: chunks.simps)
  next
    case False
    then have c: "chunks p xs = take p xs # chunks p (drop p xs)" by (simp add: chunks_step)
    show ?thesis
    proof (cases k)
      case (Suc j)
      with "1.prems" c have "j < length (chunks p (drop p xs))" by simp
      with "1.IH" [OF False] Suc c show ?thesis by (simp add: slice_def add.commute)
    qed (simp add: c slice_def)
  qed
qed

end
