(* ===== verification/Endian.thy ===== *)
theory Endian
  imports Prelude
begin

text \<open>
  Byte order (src/ecaludp/src/protocol/portable_endian.h): the bytes of a word in memory on a
  little-endian and on a big-endian host, the conversion macros as the two Windows branches of the
  header spell them out (\<open>Platforms\<close> has all branches), and the law the protocol code relies on: what is stored after
  \<^verbatim>\<open>htole32\<close> has the same bytes on every host, and \<^verbatim>\<open>le32toh\<close> reads
  it back.
\<close>

unbundle bit_operations_syntax

section \<open>Words as lists of bytes\<close>

definition le_bytes :: "nat \<Rightarrow> 'a::len word \<Rightarrow> byte list" where
  "le_bytes n w = map (\<lambda>i. ucast (drop_bit (8 * i) w)) [0..<n]"

primrec le_word :: "byte list \<Rightarrow> 'a::len word" where
  "le_word [] = 0"
| "le_word (b # bs) = ucast b OR push_bit 8 (le_word bs)"

lemma length_le_bytes [simp]: "length (le_bytes n w) = n"
  by (simp add: le_bytes_def)

lemma bit_le_word:
  "bit (le_word bs :: 'a::len word) i \<longleftrightarrow>
     i < LENGTH('a) \<and> i div 8 < length bs \<and> bit (bs ! (i div 8)) (i mod 8)"
proof (induction bs arbitrary: i)
  case Nil
  then show ?case by simp
next
  case (Cons b bs)
  show ?case
  proof (cases "i < 8")
    case True
    then show ?thesis
      by (auto simp: bit_or_iff bit_push_bit_iff bit_ucast_iff)
  next
    case False
    then obtain k where k: "i = k + 8"
      by (metis add.commute le_Suc_ex not_less)
    have "\<not> bit b (k + 8)" using bit_imp_le_length [of b "k + 8"] by auto
    moreover have "(k + 8) div 8 = Suc (k div 8)" by simp
    ultimately show ?thesis
      by (auto simp: k Cons bit_or_iff bit_push_bit_iff bit_ucast_iff)
  qed
qed

lemma le_word_le_bytes:
  assumes "LENGTH('a) = 8 * n"
  shows "le_word (le_bytes n (w :: 'a::len word)) = w"
proof (rule bit_word_eqI)
  fix i assume "i < LENGTH('a)"
  with assms show "bit (le_word (le_bytes n w) :: 'a word) i = bit w i"
    by (auto simp: bit_le_word le_bytes_def bit_ucast_iff bit_drop_bit_eq less_mult_imp_div_less)
qed

lemma le_bytes_le_word:
  assumes "length bs = n" "8 * n \<le> LENGTH('a)"
  shows "le_bytes n (le_word bs :: 'a::len word) = bs"
proof (rule nth_equalityI)
  show "length (le_bytes n (le_word bs :: 'a word)) = length bs" using assms by simp
next
  fix k assume "k < length (le_bytes n (le_word bs :: 'a word))"
  then have k: "k < n" by simp
  have "ucast (drop_bit (8 * k) (le_word bs :: 'a word)) = bs ! k"
  proof (rule bit_word_eqI)
    fix i assume "i < LENGTH(8)"
    with k assms show "bit (ucast (drop_bit (8 * k) (le_word bs :: 'a word)) :: byte) i = bit (bs ! k) i"
      by (auto simp: bit_le_word bit_ucast_iff bit_drop_bit_eq)
  qed
  with k show "le_bytes n (le_word bs :: 'a word) ! k = bs ! k"
    by (simp add: le_bytes_def)
qed

section \<open>Hosts\<close>

datatype host = Little_Endian | Big_Endian

text \<open>An integer in the memory of the host: its bytes in the order of the addresses.\<close>

definition store_bytes :: "host \<Rightarrow> nat \<Rightarrow> 'a::len word \<Rightarrow> byte list" where
  "store_bytes h n w =
     (case h of Little_Endian \<Rightarrow> le_bytes n w | Big_Endian \<Rightarrow> rev (le_bytes n w))"

definition load_bytes :: "host \<Rightarrow> byte list \<Rightarrow> 'a::len word" where
  "load_bytes h bs = (case h of Little_Endian \<Rightarrow> le_word bs | Big_Endian \<Rightarrow> le_word (rev bs))"

text \<open>
  Byte swaps: \<^verbatim>\<open>__builtin_bswap16/32/64\<close> on the big-endian host, and the
  \<^verbatim>\<open>htons, htonl, htonll\<close> functions, which swap on the little-endian one.
\<close>

definition bswap :: "nat \<Rightarrow> 'a::len word \<Rightarrow> 'a word" where
  "bswap n w = le_word (rev (le_bytes n w))"

lemma bswap_bswap: "LENGTH('a) = 8 * n \<Longrightarrow> bswap n (bswap n w) = (w :: 'a::len word)"
  by (simp add: bswap_def le_bytes_le_word le_word_le_bytes)

section \<open>The conversion macros\<close>

definition htobe16 :: "host \<Rightarrow> u16 \<Rightarrow> u16" where
  "htobe16 h x = (case h of Little_Endian \<Rightarrow> bswap 2 x | Big_Endian \<Rightarrow> x)"

definition htole16 :: "host \<Rightarrow> u16 \<Rightarrow> u16" where
  "htole16 h x = (case h of Little_Endian \<Rightarrow> x | Big_Endian \<Rightarrow> bswap 2 x)"

definition be16toh :: "host \<Rightarrow> u16 \<Rightarrow> u16" where
  "be16toh h x = (case h of Little_Endian \<Rightarrow> bswap 2 x | Big_Endian \<Rightarrow> x)"

definition le16toh :: "host \<Rightarrow> u16 \<Rightarrow> u16" where
  "le16toh h x = (case h of Little_Endian \<Rightarrow> x | Big_Endian \<Rightarrow> bswap 2 x)"

definition htobe32 :: "host \<Rightarrow> u32 \<Rightarrow> u32" where
  "htobe32 h x = (case h of Little_Endian \<Rightarrow> bswap 4 x | Big_Endian \<Rightarrow> x)"

definition htole32 :: "host \<Rightarrow> u32 \<Rightarrow> u32" where
  "htole32 h x = (case h of Little_Endian \<Rightarrow> x | Big_Endian \<Rightarrow> bswap 4 x)"

definition be32toh :: "host \<Rightarrow> u32 \<Rightarrow> u32" where
  "be32toh h x = (case h of Little_Endian \<Rightarrow> bswap 4 x | Big_Endian \<Rightarrow> x)"

definition le32toh :: "host \<Rightarrow> u32 \<Rightarrow> u32" where
  "le32toh h x = (case h of Little_Endian \<Rightarrow> x | Big_Endian \<Rightarrow> bswap 4 x)"

definition htobe64 :: "host \<Rightarrow> u64 \<Rightarrow> u64" where
  "htobe64 h x = (case h of Little_Endian \<Rightarrow> bswap 8 x | Big_Endian \<Rightarrow> x)"

definition htole64 :: "host \<Rightarrow> u64 \<Rightarrow> u64" where
  "htole64 h x = (case h of Little_Endian \<Rightarrow> x | Big_Endian \<Rightarrow> bswap 8 x)"

definition be64toh :: "host \<Rightarrow> u64 \<Rightarrow> u64" where
  "be64toh h x = (case h of Little_Endian \<Rightarrow> bswap 8 x | Big_Endian \<Rightarrow> x)"

definition le64toh :: "host \<Rightarrow> u64 \<Rightarrow> u64" where
  "le64toh h x = (case h of Little_Endian \<Rightarrow> x | Big_Endian \<Rightarrow> bswap 8 x)"

lemmas endian_macros =
  htobe16_def htole16_def be16toh_def le16toh_def
  htobe32_def htole32_def be32toh_def le32toh_def
  htobe64_def htole64_def be64toh_def le64toh_def

lemma le32toh_htole32 [simp]: "le32toh h (htole32 h x) = x"
  by (cases h) (simp_all add: endian_macros bswap_bswap)

lemma htole32_le32toh [simp]: "htole32 h (le32toh h x) = x"
  by (cases h) (simp_all add: endian_macros bswap_bswap)

section \<open>Words on the wire\<close>

text \<open>
  What the protocol code does with every field of the header: \<^verbatim>\<open>field = htole32(x)\<close>
  on the way out, \<^verbatim>\<open>le32toh(field)\<close> on the way in.
\<close>

definition put_le32 :: "host \<Rightarrow> u32 \<Rightarrow> byte list" where
  "put_le32 h x = store_bytes h 4 (htole32 h x)"

definition get_le32 :: "host \<Rightarrow> byte list \<Rightarrow> u32" where
  "get_le32 h bs = le32toh h (load_bytes h bs)"

lemma put_le32_host [wire]: "put_le32 h x = le_bytes 4 x"
  by (cases h) (simp_all add: put_le32_def store_bytes_def endian_macros bswap_def le_bytes_le_word)

lemma get_le32_host [wire]: "length bs = 4 \<Longrightarrow> get_le32 h bs = le_word bs"
  by (cases h)
    (simp_all add: get_le32_def load_bytes_def endian_macros bswap_def le_bytes_le_word)

text \<open>
  The interface the header code uses: a codec of values as a fixed number of bytes, with the
  laws of reading and writing a field of a structure in memory.
\<close>

locale byte_codec =
  fixes enc :: "'v \<Rightarrow> byte list"
    and dec :: "byte list \<Rightarrow> 'v"
    and width :: nat
  assumes length_enc: "length (enc v) = width"
    and dec_enc: "dec (enc v) = v"
    and enc_dec: "length bs = width \<Longrightarrow> enc (dec bs) = bs"
begin

definition put_field :: "nat \<Rightarrow> 'v \<Rightarrow> byte list \<Rightarrow> byte list" where
  "put_field off v bs = overwrite off (enc v) bs"

definition get_field :: "nat \<Rightarrow> byte list \<Rightarrow> 'v" where
  "get_field off bs = dec (slice off width bs)"

lemma enc_inject: "enc v = enc w \<longleftrightarrow> v = w"
  by (metis dec_enc)

lemma get_put_same: "off + width \<le> length bs \<Longrightarrow> get_field off (put_field off v bs) = v"
  using slice_overwrite_same [of off "enc v" bs]
  by (simp add: get_field_def put_field_def length_enc dec_enc)

lemma length_put: "off + width \<le> length bs \<Longrightarrow> length (put_field off v bs) = length bs"
  by (simp add: put_field_def length_enc)

lemma put_get_same: "off + width \<le> length bs \<Longrightarrow> put_field off (get_field off bs) bs = bs"
  by (simp add: get_field_def put_field_def overwrite_def enc_dec slice_def)
    (metis append_take_drop_id drop_drop add.commute)

lemma put_put_same:
  "off + width \<le> length bs \<Longrightarrow> put_field off v (put_field off w bs) = put_field off v bs"
  by (simp add: put_field_def overwrite_def length_enc)

lemma get_put_other:
  assumes "off + width \<le> length bs" "off' + width \<le> off \<or> off + width \<le> off'"
  shows "get_field off' (put_field off v bs) = get_field off' bs"
  using assms
  by (auto simp: get_field_def put_field_def length_enc slice_overwrite_before slice_overwrite_after)

end

interpretation le32: byte_codec "put_le32 h" "get_le32 h" 4 for h
proof
  show "length (put_le32 h v) = 4" for v by (simp add: wire)
  show "get_le32 h (put_le32 h v) = v" for v by (simp add: wire le_word_le_bytes)
  show "length bs = 4 \<Longrightarrow> put_le32 h (get_le32 h bs) = bs" for bs
    by (simp add: wire le_bytes_le_word)
qed

end
