(* ===== verification/Platforms.thy ===== *)
theory Platforms
  imports Endian
begin

text \<open>
  The branches of src/ecaludp/src/protocol/portable_endian.h: how the preprocessor chooses one from the
  macros the compiler and the included headers define, and what the conversion macros are in it. The
  functions of the platforms (\<^verbatim>\<open>htons\<close>, \<^verbatim>\<open>OSSwapHostToLittleInt32\<close> and so on) are
  parameters; what their documentation says of them is the predicate \<open>documented\<close>.
\<close>

section \<open>Choosing a branch\<close>

text \<open>
  Macros with the value they have in an \<^verbatim>\<open>#if\<close>, where one that is not defined counts as 0.
\<close>

type_synonym pp_macros = "string \<rightharpoonup> int"

definition defined :: "pp_macros \<Rightarrow> string \<Rightarrow> bool" where
  "defined d x \<longleftrightarrow> d x \<noteq> None"

definition pp_value :: "pp_macros \<Rightarrow> string \<Rightarrow> int" where
  "pp_value d x = (case d x of None \<Rightarrow> 0 | Some v \<Rightarrow> v)"

text \<open>The value of \<^verbatim>\<open>__WINDOWS__\<close> is never asked for.\<close>

definition normalize_windows :: "pp_macros \<Rightarrow> pp_macros" where
  "normalize_windows d =
     (if (defined d ''_WIN16'' \<or> defined d ''_WIN32'' \<or> defined d ''_WIN64'') \<and> \<not> defined d ''__WINDOWS__''
      then d(''__WINDOWS__'' \<mapsto> 0) else d)"

datatype branch = Linux | Apple | OpenBSD | BSD | Windows_Little | Windows_Big | QNX

text \<open>The macros two headers of Windows add before the byte order is looked at.\<close>

record windows_headers =
  winsock2_h :: pp_macros
  sys_param_h :: pp_macros

definition windows_macros :: "windows_headers \<Rightarrow> pp_macros \<Rightarrow> pp_macros" where
  "windows_macros hs d =
     (let d = d ++ winsock2_h hs
      in if defined d ''__GNUC__'' then d ++ sys_param_h hs else d)"

definition windows_branch :: "pp_macros \<Rightarrow> branch option" where
  "windows_branch d =
     (if pp_value d ''BYTE_ORDER'' = pp_value d ''LITTLE_ENDIAN'' then Some Windows_Little
      else if pp_value d ''BYTE_ORDER'' = pp_value d ''BIG_ENDIAN'' then Some Windows_Big
      else None)"

text \<open>\<open>None\<close> stands for an \<^verbatim>\<open>#error\<close>.\<close>

definition select_branch :: "windows_headers \<Rightarrow> pp_macros \<Rightarrow> branch option" where
  "select_branch hs d =
     (let d = normalize_windows d
      in if defined d ''__linux__'' \<or> defined d ''__CYGWIN__'' then Some Linux
         else if defined d ''__APPLE__'' then Some Apple
         else if defined d ''__OpenBSD__'' then Some OpenBSD
         else if defined d ''__NetBSD__'' \<or> defined d ''__FreeBSD__'' \<or> defined d ''__DragonFly__'' then Some BSD
         else if defined d ''__WINDOWS__'' then windows_branch (windows_macros hs d)
         else if defined d ''__QNXNTO__'' then Some QNX
         else None)"

section \<open>The macros of each branch\<close>

record conversions =
  m_htobe16 :: "u16 \<Rightarrow> u16"
  m_htole16 :: "u16 \<Rightarrow> u16"
  m_be16toh :: "u16 \<Rightarrow> u16"
  m_le16toh :: "u16 \<Rightarrow> u16"
  m_htobe32 :: "u32 \<Rightarrow> u32"
  m_htole32 :: "u32 \<Rightarrow> u32"
  m_be32toh :: "u32 \<Rightarrow> u32"
  m_le32toh :: "u32 \<Rightarrow> u32"
  m_htobe64 :: "u64 \<Rightarrow> u64"
  m_htole64 :: "u64 \<Rightarrow> u64"
  m_be64toh :: "u64 \<Rightarrow> u64"
  m_le64toh :: "u64 \<Rightarrow> u64"

text \<open>
  The functions the branches call: the conversions that the system header of the branch defines itself,
  those of Apple, those of the BSDs, of winsock, and of the compiler.
\<close>

record libraries =
  system_header :: conversions
  OSSwapHostToBigInt16 :: "u16 \<Rightarrow> u16"
  OSSwapHostToLittleInt16 :: "u16 \<Rightarrow> u16"
  OSSwapBigToHostInt16 :: "u16 \<Rightarrow> u16"
  OSSwapLittleToHostInt16 :: "u16 \<Rightarrow> u16"
  OSSwapHostToBigInt32 :: "u32 \<Rightarrow> u32"
  OSSwapHostToLittleInt32 :: "u32 \<Rightarrow> u32"
  OSSwapBigToHostInt32 :: "u32 \<Rightarrow> u32"
  OSSwapLittleToHostInt32 :: "u32 \<Rightarrow> u32"
  OSSwapHostToBigInt64 :: "u64 \<Rightarrow> u64"
  OSSwapHostToLittleInt64 :: "u64 \<Rightarrow> u64"
  OSSwapBigToHostInt64 :: "u64 \<Rightarrow> u64"
  OSSwapLittleToHostInt64 :: "u64 \<Rightarrow> u64"
  betoh16 :: "u16 \<Rightarrow> u16"
  letoh16 :: "u16 \<Rightarrow> u16"
  betoh32 :: "u32 \<Rightarrow> u32"
  letoh32 :: "u32 \<Rightarrow> u32"
  betoh64 :: "u64 \<Rightarrow> u64"
  letoh64 :: "u64 \<Rightarrow> u64"
  htons :: "u16 \<Rightarrow> u16"
  ntohs :: "u16 \<Rightarrow> u16"
  htonl :: "u32 \<Rightarrow> u32"
  ntohl :: "u32 \<Rightarrow> u32"
  htonll :: "u64 \<Rightarrow> u64"
  ntohll :: "u64 \<Rightarrow> u64"
  builtin_bswap16 :: "u16 \<Rightarrow> u16"
  builtin_bswap32 :: "u32 \<Rightarrow> u32"
  builtin_bswap64 :: "u64 \<Rightarrow> u64"

definition apple_macros :: "libraries \<Rightarrow> conversions" where
  "apple_macros lib =
     \<lparr>m_htobe16 = OSSwapHostToBigInt16 lib, m_htole16 = OSSwapHostToLittleInt16 lib,
      m_be16toh = OSSwapBigToHostInt16 lib, m_le16toh = OSSwapLittleToHostInt16 lib,
      m_htobe32 = OSSwapHostToBigInt32 lib, m_htole32 = OSSwapHostToLittleInt32 lib,
      m_be32toh = OSSwapBigToHostInt32 lib, m_le32toh = OSSwapLittleToHostInt32 lib,
      m_htobe64 = OSSwapHostToBigInt64 lib, m_htole64 = OSSwapHostToLittleInt64 lib,
      m_be64toh = OSSwapBigToHostInt64 lib, m_le64toh = OSSwapLittleToHostInt64 lib\<rparr>"

text \<open>The conversions from the host are those of the header.\<close>

definition bsd_macros :: "libraries \<Rightarrow> conversions" where
  "bsd_macros lib =
     (system_header lib)\<lparr>m_be16toh := betoh16 lib, m_le16toh := letoh16 lib,
        m_be32toh := betoh32 lib, m_le32toh := letoh32 lib,
        m_be64toh := betoh64 lib, m_le64toh := letoh64 lib\<rparr>"

definition windows_little_macros :: "libraries \<Rightarrow> conversions" where
  "windows_little_macros lib =
     \<lparr>m_htobe16 = htons lib, m_htole16 = (\<lambda>x. x), m_be16toh = ntohs lib, m_le16toh = (\<lambda>x. x),
      m_htobe32 = htonl lib, m_htole32 = (\<lambda>x. x), m_be32toh = ntohl lib, m_le32toh = (\<lambda>x. x),
      m_htobe64 = htonll lib, m_htole64 = (\<lambda>x. x), m_be64toh = ntohll lib, m_le64toh = (\<lambda>x. x)\<rparr>"

definition windows_big_macros :: "libraries \<Rightarrow> conversions" where
  "windows_big_macros lib =
     \<lparr>m_htobe16 = (\<lambda>x. x), m_htole16 = builtin_bswap16 lib, m_be16toh = (\<lambda>x. x), m_le16toh = builtin_bswap16 lib,
      m_htobe32 = (\<lambda>x. x), m_htole32 = builtin_bswap32 lib, m_be32toh = (\<lambda>x. x), m_le32toh = builtin_bswap32 lib,
      m_htobe64 = (\<lambda>x. x), m_htole64 = builtin_bswap64 lib, m_be64toh = (\<lambda>x. x), m_le64toh = builtin_bswap64 lib\<rparr>"

definition platform_macros :: "libraries \<Rightarrow> branch \<Rightarrow> conversions" where
  "platform_macros lib b =
     (case b of
        Linux \<Rightarrow> system_header lib
      | Apple \<Rightarrow> apple_macros lib
      | OpenBSD \<Rightarrow> system_header lib
      | BSD \<Rightarrow> bsd_macros lib
      | Windows_Little \<Rightarrow> windows_little_macros lib
      | Windows_Big \<Rightarrow> windows_big_macros lib
      | QNX \<Rightarrow> system_header lib)"

section \<open>What the platforms document\<close>

text \<open>The conversions of \<open>Endian\<close> as one record.\<close>

definition host_macros :: "host \<Rightarrow> conversions" where
  "host_macros h =
     \<lparr>m_htobe16 = htobe16 h, m_htole16 = htole16 h, m_be16toh = be16toh h, m_le16toh = le16toh h,
      m_htobe32 = htobe32 h, m_htole32 = htole32 h, m_be32toh = be32toh h, m_le32toh = le32toh h,
      m_htobe64 = htobe64 h, m_htole64 = htole64 h, m_be64toh = be64toh h, m_le64toh = le64toh h\<rparr>"

definition documented_apple :: "host \<Rightarrow> libraries \<Rightarrow> bool" where
  "documented_apple h lib \<longleftrightarrow>
     OSSwapHostToBigInt16 lib = htobe16 h \<and> OSSwapHostToLittleInt16 lib = htole16 h \<and>
     OSSwapBigToHostInt16 lib = be16toh h \<and> OSSwapLittleToHostInt16 lib = le16toh h \<and>
     OSSwapHostToBigInt32 lib = htobe32 h \<and> OSSwapHostToLittleInt32 lib = htole32 h \<and>
     OSSwapBigToHostInt32 lib = be32toh h \<and> OSSwapLittleToHostInt32 lib = le32toh h \<and>
     OSSwapHostToBigInt64 lib = htobe64 h \<and> OSSwapHostToLittleInt64 lib = htole64 h \<and>
     OSSwapBigToHostInt64 lib = be64toh h \<and> OSSwapLittleToHostInt64 lib = le64toh h"

definition documented_bsd :: "host \<Rightarrow> libraries \<Rightarrow> bool" where
  "documented_bsd h lib \<longleftrightarrow>
     betoh16 lib = be16toh h \<and> letoh16 lib = le16toh h \<and> betoh32 lib = be32toh h \<and>
     letoh32 lib = le32toh h \<and> betoh64 lib = be64toh h \<and> letoh64 lib = le64toh h"

text \<open>The order of the network is big-endian.\<close>

definition documented_winsock :: "host \<Rightarrow> libraries \<Rightarrow> bool" where
  "documented_winsock h lib \<longleftrightarrow>
     htons lib = htobe16 h \<and> ntohs lib = be16toh h \<and> htonl lib = htobe32 h \<and>
     ntohl lib = be32toh h \<and> htonll lib = htobe64 h \<and> ntohll lib = be64toh h"

definition documented_compiler :: "libraries \<Rightarrow> bool" where
  "documented_compiler lib \<longleftrightarrow>
     builtin_bswap16 lib = bswap 2 \<and> builtin_bswap32 lib = bswap 4 \<and> builtin_bswap64 lib = bswap 8"

definition documented :: "host \<Rightarrow> libraries \<Rightarrow> bool" where
  "documented h lib \<longleftrightarrow>
     system_header lib = host_macros h \<and> documented_apple h lib \<and> documented_bsd h lib \<and>
     documented_winsock h lib \<and> documented_compiler lib"

lemmas documented_defs =
  documented_def documented_apple_def documented_bsd_def documented_winsock_def documented_compiler_def

lemmas branch_macros =
  platform_macros_def apple_macros_def bsd_macros_def windows_little_macros_def windows_big_macros_def host_macros_def

text \<open>
  The Windows branches are right for one byte order each; the macros \<^verbatim>\<open>BYTE_ORDER\<close>,
  \<^verbatim>\<open>LITTLE_ENDIAN\<close> and \<^verbatim>\<open>BIG_ENDIAN\<close> have to tell them apart.
\<close>

definition says_order :: "host \<Rightarrow> pp_macros \<Rightarrow> bool" where
  "says_order h d \<longleftrightarrow>
     pp_value d ''LITTLE_ENDIAN'' \<noteq> pp_value d ''BIG_ENDIAN'' \<and>
     pp_value d ''BYTE_ORDER'' =
       (case h of Little_Endian \<Rightarrow> pp_value d ''LITTLE_ENDIAN'' | Big_Endian \<Rightarrow> pp_value d ''BIG_ENDIAN'')"

definition order_known :: "host \<Rightarrow> windows_headers \<Rightarrow> pp_macros \<Rightarrow> bool" where
  "order_known h hs d \<longleftrightarrow>
     (let d = windows_macros hs (normalize_windows d)
      in says_order h d \<or> h = Little_Endian \<and> \<not> defined d ''BYTE_ORDER'' \<and> \<not> defined d ''LITTLE_ENDIAN'')"

definition branch_order :: "branch \<Rightarrow> host option" where
  "branch_order b =
     (case b of Windows_Little \<Rightarrow> Some Little_Endian | Windows_Big \<Rightarrow> Some Big_Endian | _ \<Rightarrow> None)"

lemma platform_macros_host:
  assumes "documented h lib" "branch_order b \<in> {None, Some h}"
  shows "platform_macros lib b = host_macros h"
  using assms by (cases b) (auto simp: branch_macros documented_defs branch_order_def endian_macros fun_eq_iff)

lemma windows_branch_order:
  "says_order h d \<Longrightarrow> (case windows_branch d of None \<Rightarrow> False | Some b \<Rightarrow> branch_order b = Some h)"
  by (cases h) (auto simp: says_order_def windows_branch_def branch_order_def)

lemma windows_branch_undefined:
  "\<not> defined d ''BYTE_ORDER'' \<Longrightarrow> \<not> defined d ''LITTLE_ENDIAN'' \<Longrightarrow> windows_branch d = Some Windows_Little"
  by (simp add: windows_branch_def pp_value_def defined_def)

lemma select_branch_order:
  assumes "order_known h hs d" "select_branch hs d = Some b"
  shows "branch_order b \<in> {None, Some h}"
  using assms windows_branch_order [of h "windows_macros hs (normalize_windows d)"]
    windows_branch_undefined [of "windows_macros hs (normalize_windows d)"]
  by (auto simp: select_branch_def order_known_def Let_def branch_order_def split: if_splits)

section \<open>Words on the wire, on every platform\<close>

definition platform_put_le32 :: "host \<Rightarrow> conversions \<Rightarrow> u32 \<Rightarrow> byte list" where
  "platform_put_le32 h m x = store_bytes h 4 (m_htole32 m x)"

definition platform_get_le32 :: "host \<Rightarrow> conversions \<Rightarrow> byte list \<Rightarrow> u32" where
  "platform_get_le32 h m bs = m_le32toh m (load_bytes h bs)"

lemma put_le32_host_macros: "platform_put_le32 h (host_macros h) x = le_bytes 4 x"
  using put_le32_host [of h x] by (simp add: platform_put_le32_def host_macros_def put_le32_def)

lemma get_le32_host_macros: "platform_get_le32 h (host_macros h) (le_bytes 4 x) = x"
  using get_le32_host [of "le_bytes 4 x" h]
  by (simp add: platform_get_le32_def host_macros_def get_le32_def le_word_le_bytes)

text \<open>Libraries that do what is documented, on a host of each order, and some platforms.\<close>

definition demo_libraries :: "host \<Rightarrow> libraries" where
  "demo_libraries h =
     \<lparr>system_header = host_macros h,
      OSSwapHostToBigInt16 = htobe16 h, OSSwapHostToLittleInt16 = htole16 h,
      OSSwapBigToHostInt16 = be16toh h, OSSwapLittleToHostInt16 = le16toh h,
      OSSwapHostToBigInt32 = htobe32 h, OSSwapHostToLittleInt32 = htole32 h,
      OSSwapBigToHostInt32 = be32toh h, OSSwapLittleToHostInt32 = le32toh h,
      OSSwapHostToBigInt64 = htobe64 h, OSSwapHostToLittleInt64 = htole64 h,
      OSSwapBigToHostInt64 = be64toh h, OSSwapLittleToHostInt64 = le64toh h,
      betoh16 = be16toh h, letoh16 = le16toh h, betoh32 = be32toh h, letoh32 = le32toh h,
      betoh64 = be64toh h, letoh64 = le64toh h,
      htons = htobe16 h, ntohs = be16toh h, htonl = htobe32 h, ntohl = be32toh h,
      htonll = htobe64 h, ntohll = be64toh h,
      builtin_bswap16 = bswap 2, builtin_bswap32 = bswap 4, builtin_bswap64 = bswap 8\<rparr>"

lemma demo_documented: "documented h (demo_libraries h)"
  by (simp add: documented_defs demo_libraries_def)

definition no_headers :: windows_headers where
  "no_headers = \<lparr>winsock2_h = Map.empty, sys_param_h = Map.empty\<rparr>"

definition mingw_headers :: windows_headers where
  "mingw_headers =
     \<lparr>winsock2_h = Map.empty,
      sys_param_h = [''BYTE_ORDER'' \<mapsto> 1234, ''LITTLE_ENDIAN'' \<mapsto> 1234, ''BIG_ENDIAN'' \<mapsto> 4321]\<rparr>"

definition mingw :: pp_macros where
  "mingw = [''_WIN32'' \<mapsto> 1, ''__GNUC__'' \<mapsto> 13]"

definition big_endian_bsd :: pp_macros where
  "big_endian_bsd = [''__FreeBSD__'' \<mapsto> 14, ''BYTE_ORDER'' \<mapsto> 4321, ''LITTLE_ENDIAN'' \<mapsto> 1234, ''BIG_ENDIAN'' \<mapsto> 4321]"

lemma demo_platforms:
  "order_known Little_Endian mingw_headers mingw" "select_branch mingw_headers mingw = Some Windows_Little"
  "order_known Big_Endian no_headers big_endian_bsd" "select_branch no_headers big_endian_bsd = Some BSD"
  by (simp_all add: order_known_def select_branch_def windows_macros_def normalize_windows_def windows_branch_def
      says_order_def defined_def pp_value_def mingw_headers_def mingw_def big_endian_bsd_def no_headers_def Let_def
      map_add_def)

text \<open>The macros that are asked for before \<^verbatim>\<open>__WINDOWS__\<close>.\<close>

definition other_platforms :: "string list" where
  "other_platforms =
     [''__linux__'', ''__CYGWIN__'', ''__APPLE__'', ''__OpenBSD__'', ''__NetBSD__'', ''__FreeBSD__'',
      ''__DragonFly__'']"

section \<open>Properties\<close>


text \<open>
  When neither the compiler nor the headers of a Windows platform define \<^verbatim>\<open>BYTE_ORDER\<close>
  and \<^verbatim>\<open>LITTLE_ENDIAN\<close>, the comparison of the two is true and the little-endian branch is
  chosen, so that a big-endian host stores a field with the most significant byte first, which every
  other platform reads as another number, unless the field is its own reverse.
\<close>

lemma windows_order_undefined:
  assumes "defined d ''_WIN32''" "filter (defined d) other_platforms = []"
    and "\<not> defined (windows_macros hs (normalize_windows d)) ''BYTE_ORDER''"
    and "\<not> defined (windows_macros hs (normalize_windows d)) ''LITTLE_ENDIAN''"
  shows "select_branch hs d = Some Windows_Little \<and>
    platform_put_le32 Big_Endian (platform_macros lib Windows_Little) x = rev (le_bytes 4 x)"
proof -
  have "select_branch hs d = windows_branch (windows_macros hs (normalize_windows d))"
    using assms(1,2)
    by (auto simp: select_branch_def normalize_windows_def other_platforms_def defined_def split: if_splits)
  moreover have "platform_put_le32 Big_Endian (platform_macros lib Windows_Little) x = rev (le_bytes 4 x)"
    by (simp add: platform_put_le32_def branch_macros store_bytes_def)
  ultimately show ?thesis using windows_branch_undefined [OF assms(3,4)] by simp
qed

section \<open>Witnesses\<close>


end
