(* ===== verification/Error_Codes.thy ===== *)
theory Error_Codes
  imports Prelude
begin

text \<open>
  The error object every receiving operation reports through
  (src/ecaludp/include/ecaludp/error.h): an error code of a plain enumeration and a message.
  Assigning a bare code keeps the message the object already had.
\<close>

datatype ErrorCode =
    OK
  | GENERIC_ERROR
  | UNSUPPORTED_PROTOCOL_VERSION
  | DUPLICATE_DATAGRAM
  | MALFORMED_DATAGRAM
  | MALFORMED_REASSEMBLED_MESSAGE
  | NPCAP_NOT_INITIALIZED
  | NOT_BOUND
  | SOCKET_CLOSED

text \<open>The value of an enumerator, counted from 0; the enumeration is ordered by it.\<close>

primrec error_code_value :: "ErrorCode \<Rightarrow> nat" where
  "error_code_value OK = 0"
| "error_code_value GENERIC_ERROR = 1"
| "error_code_value UNSUPPORTED_PROTOCOL_VERSION = 2"
| "error_code_value DUPLICATE_DATAGRAM = 3"
| "error_code_value MALFORMED_DATAGRAM = 4"
| "error_code_value MALFORMED_REASSEMBLED_MESSAGE = 5"
| "error_code_value NPCAP_NOT_INITIALIZED = 6"
| "error_code_value NOT_BOUND = 7"
| "error_code_value SOCKET_CLOSED = 8"

lemma error_code_value_inject: "error_code_value c = error_code_value d \<Longrightarrow> c = d"
  by (cases c; cases d) simp_all

instantiation ErrorCode :: linorder
begin

definition less_eq_ErrorCode :: "ErrorCode \<Rightarrow> ErrorCode \<Rightarrow> bool" where
  "less_eq_ErrorCode c d \<longleftrightarrow> error_code_value c \<le> error_code_value d"

definition less_ErrorCode :: "ErrorCode \<Rightarrow> ErrorCode \<Rightarrow> bool" where
  "less_ErrorCode c d \<longleftrightarrow> error_code_value c < error_code_value d"

instance
  by standard
    (auto simp: less_eq_ErrorCode_def less_ErrorCode_def dest: error_code_value_inject)

end

record Error =
  err_code :: ErrorCode
  err_message :: string

text \<open>The constructors, and the assignment of a code.\<close>

definition make_error :: "ErrorCode \<Rightarrow> string \<Rightarrow> Error" where
  "make_error code message = \<lparr>err_code = code, err_message = message\<rparr>"

definition error_of_code :: "ErrorCode \<Rightarrow> Error" where
  "error_of_code code = \<lparr>err_code = code, err_message = []\<rparr>"

definition assign_code :: "ErrorCode \<Rightarrow> Error \<Rightarrow> Error" where
  "assign_code code e = e\<lparr>err_code := code\<rparr>"

primrec code_description :: "ErrorCode \<Rightarrow> string" where
  "code_description OK = ''OK''"
| "code_description GENERIC_ERROR = ''Error''"
| "code_description UNSUPPORTED_PROTOCOL_VERSION = ''Unsupported protocol version''"
| "code_description DUPLICATE_DATAGRAM = ''Duplicate datagram''"
| "code_description MALFORMED_DATAGRAM = ''Malformed datagram''"
| "code_description MALFORMED_REASSEMBLED_MESSAGE = ''Malformed reassembled message''"
| "code_description NPCAP_NOT_INITIALIZED = ''Npcap not initialized''"
| "code_description NOT_BOUND = ''Socket not bound''"
| "code_description SOCKET_CLOSED = ''Socket closed''"

definition GetDescription :: "Error \<Rightarrow> string" where
  "GetDescription e = code_description (err_code e)"

definition ToString :: "Error \<Rightarrow> string" where
  "ToString e =
     (if err_message e = [] then GetDescription e
      else GetDescription e @ '' ('' @ err_message e @ '')'')"

definition GetMessage :: "Error \<Rightarrow> string" where
  "GetMessage e = err_message e"

text \<open>The conversion to bool and the comparisons look at the code only.\<close>

definition is_error :: "Error \<Rightarrow> bool" where
  "is_error e \<longleftrightarrow> err_code e \<noteq> OK"

definition error_eq :: "Error \<Rightarrow> Error \<Rightarrow> bool" where
  "error_eq e f \<longleftrightarrow> err_code e = err_code f"

definition error_eq_code :: "Error \<Rightarrow> ErrorCode \<Rightarrow> bool" where
  "error_eq_code e c \<longleftrightarrow> err_code e = c"

definition error_neq :: "Error \<Rightarrow> Error \<Rightarrow> bool" where
  "error_neq e f \<longleftrightarrow> err_code e \<noteq> err_code f"

definition error_neq_code :: "Error \<Rightarrow> ErrorCode \<Rightarrow> bool" where
  "error_neq_code e c \<longleftrightarrow> err_code e \<noteq> c"

text \<open>The codes of the section "Receiving" of the enumeration.\<close>

definition receiving_codes :: "ErrorCode set" where
  "receiving_codes = {UNSUPPORTED_PROTOCOL_VERSION..MALFORMED_REASSEMBLED_MESSAGE}"

lemma receiving_codes_iff:
  "c \<in> receiving_codes \<longleftrightarrow>
     c = UNSUPPORTED_PROTOCOL_VERSION \<or> c = DUPLICATE_DATAGRAM \<or> c = MALFORMED_DATAGRAM \<or>
     c = MALFORMED_REASSEMBLED_MESSAGE"
  by (cases c) (simp_all add: receiving_codes_def less_eq_ErrorCode_def)

lemma make_error_simps [simp]:
  "err_code (make_error c m) = c" "err_message (make_error c m) = m"
  by (simp_all add: make_error_def)

lemma error_of_code_simps [simp]:
  "err_code (error_of_code c) = c" "err_message (error_of_code c) = []"
  by (simp_all add: error_of_code_def)

lemma assign_code_simps [simp]:
  "err_code (assign_code c e) = c" "err_message (assign_code c e) = err_message e"
  by (simp_all add: assign_code_def)

lemma is_error_iff [simp]: "is_error e \<longleftrightarrow> err_code e \<noteq> OK"
  by (simp add: is_error_def)

lemma description_inject: "code_description c = code_description d \<longleftrightarrow> c = d"
  by (cases c; cases d) simp_all

end
