(* ===== verification/Raw_Memory.thy ===== *)
theory Raw_Memory
  imports Prelude
begin

text \<open>
  The RAII class \<^verbatim>\<open>RawMemory\<close> (src/ecaludp/include/ecaludp/raw_memory.h) over an
  explicit heap: blocks with their bytes, \<^verbatim>\<open>malloc, realloc, free\<close> and
  \<^verbatim>\<open>memcpy\<close> with their failures and their undefined behaviour as values. The
  contents of fresh memory and the moments at which the allocator fails are parameters. The
  class owns its block by hand, so what matters is that no sequence of its operations frees a
  block twice, touches memory outside a block, shares a block or loses one.
\<close>

section \<open>The heap\<close>

record heap =
  blocks :: "nat \<rightharpoonup> byte list"
  next_block :: nat

text \<open>
  \<open>avail A h n\<close>: a request of \<open>n\<close> bytes succeeds in the heap \<open>h\<close> (for \<open>n = 0\<close>
  both answers are allowed, as the C standard allows both). \<open>fill A\<close>: the bytes found in
  fresh memory.
\<close>

record allocator =
  avail :: "heap \<Rightarrow> nat \<Rightarrow> bool"
  fill :: "nat \<Rightarrow> byte"

definition fresh_memory :: "(nat \<Rightarrow> byte) \<Rightarrow> nat \<Rightarrow> byte list" where
  "fresh_memory g n = map g [0..<n]"

definition new_block :: "byte list \<Rightarrow> heap \<Rightarrow> heap" where
  "new_block bs h =
     h\<lparr>blocks := (blocks h)(next_block h \<mapsto> bs), next_block := Suc (next_block h)\<rparr>"

definition malloc :: "allocator \<Rightarrow> nat \<Rightarrow> heap \<Rightarrow> nat option \<times> heap" where
  "malloc A n h =
     (if avail A h n then (Some (next_block h), new_block (fresh_memory (fill A) n) h)
      else (None, h))"

definition free :: "nat option \<Rightarrow> heap \<Rightarrow> fault + heap" where
  "free p h =
     (case p of
        None \<Rightarrow> Inr h
      | Some b \<Rightarrow>
          if blocks h b \<noteq> None then Inr (h\<lparr>blocks := (blocks h)(b := None)\<rparr>)
          else Inl Invalid_Free)"

text \<open>
  \<^verbatim>\<open>realloc\<close> moves the block: the common prefix of the contents is kept, the rest
  is fresh; on failure the old block stays as it is.
\<close>

definition realloc ::
    "allocator \<Rightarrow> nat option \<Rightarrow> nat \<Rightarrow> heap \<Rightarrow> fault + nat option \<times> heap" where
  "realloc A p n h =
     (case p of
        None \<Rightarrow> Inr (malloc A n h)
      | Some b \<Rightarrow>
          (case blocks h b of
             None \<Rightarrow> Inl Invalid_Free
           | Some bs \<Rightarrow>
               if avail A h n then
                 Inr (Some (next_block h),
                   new_block (take n bs @ drop (length bs) (fresh_memory (fill A) n))
                     (h\<lparr>blocks := (blocks h)(b := None)\<rparr>))
               else Inr (None, h)))"

definition memcpy :: "nat \<Rightarrow> nat \<Rightarrow> nat \<Rightarrow> heap \<Rightarrow> fault + heap" where
  "memcpy dst src n h =
     (case (blocks h dst, blocks h src) of
        (Some d, Some s) \<Rightarrow>
          if length s < n then Inl Out_Of_Bounds_Read
          else if length d < n then Inl Out_Of_Bounds_Write
          else Inr (h\<lparr>blocks := (blocks h)(dst \<mapsto> overwrite 0 (take n s) d)\<rparr>)
      | _ \<Rightarrow> Inl Null_Dereference)"

section \<open>The class\<close>

record RawMemory =
  mem_data :: "nat option"
  mem_capacity :: nat
  mem_size :: nat

definition raw_default :: RawMemory where
  "raw_default = \<lparr>mem_data = None, mem_capacity = 0, mem_size = 0\<rparr>"

definition raw_with_size :: "allocator \<Rightarrow> nat \<Rightarrow> heap \<Rightarrow> fault + RawMemory \<times> heap" where
  "raw_with_size A n h =
     (let (p, h1) = malloc A n h;
          m = \<lparr>mem_data = p, mem_capacity = n, mem_size = n\<rparr>
      in if mem_capacity m > 0 \<and> mem_data m = None then Inl Bad_Alloc else Inr (m, h1))"

definition copy_contents :: "RawMemory \<Rightarrow> RawMemory \<Rightarrow> heap \<Rightarrow> fault + heap" where
  "copy_contents m other h =
     (case (mem_data m, mem_data other) of
        (Some d, Some s) \<Rightarrow> memcpy d s (mem_size m) h
      | _ \<Rightarrow> Inr h)"

definition raw_copy :: "allocator \<Rightarrow> RawMemory \<Rightarrow> heap \<Rightarrow> fault + RawMemory \<times> heap" where
  "raw_copy A other h =
     (let (p, h1) = malloc A (mem_capacity other) h;
          m = \<lparr>mem_data = p, mem_capacity = mem_capacity other, mem_size = mem_size other\<rparr>
      in if mem_capacity m > 0 \<and> mem_data m = None then Inl Bad_Alloc
         else (case copy_contents m other h1 of Inl f \<Rightarrow> Inl f | Inr h2 \<Rightarrow> Inr (m, h2)))"

text \<open>Moving returns the new object and what is left of the old one.\<close>

definition raw_move :: "RawMemory \<Rightarrow> RawMemory \<times> RawMemory" where
  "raw_move other =
     (\<lparr>mem_data = mem_data other, mem_capacity = mem_capacity other, mem_size = mem_size other\<rparr>,
      other\<lparr>mem_data := None, mem_capacity := 0, mem_size := 0\<rparr>)"

definition raw_reserve ::
    "allocator \<Rightarrow> nat \<Rightarrow> RawMemory \<Rightarrow> heap \<Rightarrow> fault + RawMemory \<times> heap" where
  "raw_reserve A n m h =
     (if n > mem_capacity m then
        (case realloc A (mem_data m) n h of
           Inl f \<Rightarrow> Inl f
         | Inr (new_data, h1) \<Rightarrow>
             if n > 0 \<and> new_data = None then Inl Bad_Alloc
             else Inr (m\<lparr>mem_data := new_data, mem_capacity := n\<rparr>, h1))
      else Inr (m, h))"

definition raw_resize ::
    "allocator \<Rightarrow> nat \<Rightarrow> RawMemory \<Rightarrow> heap \<Rightarrow> fault + RawMemory \<times> heap" where
  "raw_resize A n m h =
     (case raw_reserve A n m h of
        Inl f \<Rightarrow> Inl f
      | Inr (m1, h1) \<Rightarrow> Inr (m1\<lparr>mem_size := n\<rparr>, h1))"

text \<open>The assignments, between two different objects.\<close>

definition raw_copy_assign ::
    "allocator \<Rightarrow> RawMemory \<Rightarrow> RawMemory \<Rightarrow> heap \<Rightarrow> fault + RawMemory \<times> heap" where
  "raw_copy_assign A m other h =
     (case raw_reserve A (mem_capacity other) m h of
        Inl f \<Rightarrow> Inl f
      | Inr (m1, h1) \<Rightarrow>
          (case raw_resize A (mem_size other) m1 h1 of
             Inl f \<Rightarrow> Inl f
           | Inr (m2, h2) \<Rightarrow>
               (case copy_contents m2 other h2 of Inl f \<Rightarrow> Inl f | Inr h3 \<Rightarrow> Inr (m2, h3))))"

definition raw_move_assign ::
    "RawMemory \<Rightarrow> RawMemory \<Rightarrow> heap \<Rightarrow> fault + (RawMemory \<times> RawMemory) \<times> heap" where
  "raw_move_assign m other h =
     (case free (mem_data m) h of
        Inl f \<Rightarrow> Inl f
      | Inr h1 \<Rightarrow>
          Inr ((m\<lparr>mem_data := mem_data other, mem_capacity := mem_capacity other, mem_size := mem_size other\<rparr>,
                other\<lparr>mem_data := None, mem_capacity := 0, mem_size := 0\<rparr>), h1))"

definition raw_swap :: "RawMemory \<Rightarrow> RawMemory \<Rightarrow> RawMemory \<times> RawMemory" where
  "raw_swap m other =
     (m\<lparr>mem_data := mem_data other, mem_capacity := mem_capacity other, mem_size := mem_size other\<rparr>,
      other\<lparr>mem_data := mem_data m, mem_capacity := mem_capacity m, mem_size := mem_size m\<rparr>)"

definition raw_destroy :: "RawMemory \<Rightarrow> heap \<Rightarrow> fault + heap" where
  "raw_destroy m h = free (mem_data m) h"

text \<open>The accessors; \<open>raw_bytes\<close> is what a client sees through \<open>data()\<close> and \<open>size()\<close>.\<close>

definition raw_size :: "RawMemory \<Rightarrow> nat" where
  "raw_size m = mem_size m"

definition raw_capacity :: "RawMemory \<Rightarrow> nat" where
  "raw_capacity m = mem_capacity m"

definition raw_data :: "RawMemory \<Rightarrow> nat option" where
  "raw_data m = mem_data m"

definition raw_bytes :: "RawMemory \<Rightarrow> heap \<Rightarrow> byte list" where
  "raw_bytes m h =
     (case raw_data m of
        None \<Rightarrow> []
      | Some b \<Rightarrow> (case blocks h b of None \<Rightarrow> [] | Some bs \<Rightarrow> take (raw_size m) bs))"

section \<open>Objects in a program\<close>

record store =
  objs :: "nat \<rightharpoonup> RawMemory"
  heap_of :: heap

definition empty_store :: store where
  "empty_store = \<lparr>objs = Map.empty, heap_of = \<lparr>blocks = Map.empty, next_block = 0\<rparr>\<rparr>"

text \<open>The operations of the class on the objects at given addresses.\<close>

datatype raw_op =
    Construct nat
  | Construct_Size nat nat
  | Construct_Copy nat nat
  | Construct_Move nat nat
  | Assign_Copy nat nat
  | Assign_Move nat nat
  | Swap nat nat
  | Reserve nat nat
  | Resize nat nat
  | Destroy nat

definition put_obj :: "nat \<Rightarrow> store \<Rightarrow> RawMemory \<times> heap \<Rightarrow> store" where
  "put_obj a s mh = s\<lparr>objs := (objs s)(a \<mapsto> fst mh), heap_of := snd mh\<rparr>"

definition put_two :: "nat \<Rightarrow> nat \<Rightarrow> store \<Rightarrow> (RawMemory \<times> RawMemory) \<times> heap \<Rightarrow> store" where
  "put_two a b s mh =
     s\<lparr>objs := (objs s)(a \<mapsto> fst (fst mh), b \<mapsto> snd (fst mh)), heap_of := snd mh\<rparr>"

definition with_obj :: "nat \<Rightarrow> store \<Rightarrow> (RawMemory \<Rightarrow> fault + 'r) \<Rightarrow> fault + 'r" where
  "with_obj a s f = (case objs s a of None \<Rightarrow> Inl Null_Dereference | Some m \<Rightarrow> f m)"

fun exec :: "allocator \<Rightarrow> raw_op \<Rightarrow> store \<Rightarrow> fault + store" where
  "exec A (Construct a) s = Inr (put_obj a s (raw_default, heap_of s))"
| "exec A (Construct_Size a n) s =
     map_sum id (put_obj a s) (raw_with_size A n (heap_of s))"
| "exec A (Construct_Copy a b) s =
     with_obj b s (\<lambda>other. map_sum id (put_obj a s) (raw_copy A other (heap_of s)))"
| "exec A (Construct_Move a b) s =
     with_obj b s (\<lambda>other. Inr (put_two a b s (raw_move other, heap_of s)))"
| "exec A (Assign_Copy a b) s =
     with_obj a s (\<lambda>m. with_obj b s (\<lambda>other.
       if a \<noteq> b then map_sum id (put_obj a s) (raw_copy_assign A m other (heap_of s))
       else Inr s))"
| "exec A (Assign_Move a b) s =
     with_obj a s (\<lambda>m. with_obj b s (\<lambda>other.
       if a \<noteq> b then map_sum id (put_two a b s) (raw_move_assign m other (heap_of s))
       else Inr s))"
| "exec A (Swap a b) s =
     with_obj a s (\<lambda>m. with_obj b s (\<lambda>other.
       if a \<noteq> b then Inr (put_two a b s (raw_swap m other, heap_of s)) else Inr s))"
| "exec A (Reserve a n) s =
     with_obj a s (\<lambda>m. map_sum id (put_obj a s) (raw_reserve A n m (heap_of s)))"
| "exec A (Resize a n) s =
     with_obj a s (\<lambda>m. map_sum id (put_obj a s) (raw_resize A n m (heap_of s)))"
| "exec A (Destroy a) s =
     with_obj a s (\<lambda>m. map_sum id (\<lambda>h. s\<lparr>objs := (objs s)(a := None), heap_of := h\<rparr>)
       (raw_destroy m (heap_of s)))"

text \<open>The objects an operation needs exist, and those it constructs do not exist yet.\<close>

fun enabled :: "raw_op \<Rightarrow> store \<Rightarrow> bool" where
  "enabled (Construct a) s \<longleftrightarrow> objs s a = None"
| "enabled (Construct_Size a n) s \<longleftrightarrow> objs s a = None"
| "enabled (Construct_Copy a b) s \<longleftrightarrow> objs s a = None \<and> objs s b \<noteq> None"
| "enabled (Construct_Move a b) s \<longleftrightarrow> objs s a = None \<and> objs s b \<noteq> None"
| "enabled (Assign_Copy a b) s \<longleftrightarrow> objs s a \<noteq> None \<and> objs s b \<noteq> None"
| "enabled (Assign_Move a b) s \<longleftrightarrow> objs s a \<noteq> None \<and> objs s b \<noteq> None"
| "enabled (Swap a b) s \<longleftrightarrow> objs s a \<noteq> None \<and> objs s b \<noteq> None"
| "enabled (Reserve a n) s \<longleftrightarrow> objs s a \<noteq> None"
| "enabled (Resize a n) s \<longleftrightarrow> objs s a \<noteq> None"
| "enabled (Destroy a) s \<longleftrightarrow> objs s a \<noteq> None"

text \<open>
  The stores a program can reach. An operation that throws leaves the store as it was: every
  \<^verbatim>\<open>throw\<close> comes before the first write to the object, and a constructor that
  throws constructs nothing.
\<close>

inductive reachable :: "allocator \<Rightarrow> store \<Rightarrow> bool" for A where
  start: "reachable A empty_store"
| step: "reachable A s \<Longrightarrow> enabled op s \<Longrightarrow> exec A op s = Inr t \<Longrightarrow> reachable A t"

section \<open>Ownership\<close>

definition wf_raw :: "RawMemory \<Rightarrow> heap \<Rightarrow> bool" where
  "wf_raw m h \<longleftrightarrow>
     mem_size m \<le> mem_capacity m \<and>
     (case mem_data m of
        None \<Rightarrow> mem_capacity m = 0
      | Some b \<Rightarrow> (case blocks h b of None \<Rightarrow> False | Some bs \<Rightarrow> length bs = mem_capacity m))"

definition wf_heap :: "heap \<Rightarrow> bool" where
  "wf_heap h \<longleftrightarrow> (\<forall>b bs. blocks h b = Some bs \<longrightarrow> b < next_block h)"

definition owns :: "store \<Rightarrow> nat \<Rightarrow> nat \<Rightarrow> bool" where
  "owns s a b \<longleftrightarrow> (\<exists>m. objs s a = Some m \<and> mem_data m = Some b)"

definition wf_store :: "store \<Rightarrow> bool" where
  "wf_store s \<longleftrightarrow>
     wf_heap (heap_of s) \<and>
     (\<forall>a m. objs s a = Some m \<longrightarrow> wf_raw m (heap_of s)) \<and>
     (\<forall>a a' b. owns s a b \<and> owns s a' b \<longrightarrow> a = a') \<and>
     (\<forall>b. blocks (heap_of s) b \<noteq> None \<longrightarrow> (\<exists>a. owns s a b))"

text \<open>
  What an operation on one object may do to the heap: the object stays well formed, blocks of
  others are untouched, a block it gains is fresh and a block it gives up is freed.
\<close>

definition raw_step :: "RawMemory \<Rightarrow> heap \<Rightarrow> RawMemory \<Rightarrow> heap \<Rightarrow> bool" where
  "raw_step m h m' h' \<longleftrightarrow>
     wf_raw m' h' \<and> wf_heap h' \<and> next_block h \<le> next_block h' \<and>
     (\<forall>b. mem_data m \<noteq> Some b \<longrightarrow> mem_data m' \<noteq> Some b \<longrightarrow> blocks h' b = blocks h b) \<and>
     (\<forall>b. mem_data m = Some b \<longrightarrow> mem_data m' \<noteq> Some b \<longrightarrow> blocks h' b = None) \<and>
     (\<forall>b. mem_data m' = Some b \<longrightarrow> mem_data m = Some b \<or> next_block h \<le> b)"

lemmas raw_defs = raw_step_def wf_raw_def wf_heap_def

lemma wf_raw_default [simp]: "wf_raw raw_default h"
  by (simp add: wf_raw_def raw_default_def)

lemma wf_store_empty: "wf_store empty_store"
  by (simp add: wf_store_def empty_store_def wf_heap_def owns_def)

lemma raw_reserve_step:
  assumes "wf_raw m h" "wf_heap h" "raw_reserve A n m h = Inr (m', h')"
  shows "raw_step m h m' h'" and "n \<le> mem_capacity m'" and "mem_size m' = mem_size m"
  using assms
  by (auto simp: raw_reserve_def realloc_def malloc_def new_block_def raw_defs fresh_memory_def
      split: if_splits option.splits intro!: less_SucI)

lemma raw_step_shrink:
  "raw_step m h m' h' \<Longrightarrow> n \<le> mem_capacity m' \<Longrightarrow> raw_step m h (m'\<lparr>mem_size := n\<rparr>) h'"
  by (auto simp: raw_defs split: option.splits)

lemma raw_resize_step:
  assumes "wf_raw m h" "wf_heap h" "raw_resize A n m h = Inr (m', h')"
  shows "raw_step m h m' h'" and "mem_size m' = n"
proof -
  from assms(3) obtain m1 where m1: "raw_reserve A n m h = Inr (m1, h')"
    and m': "m' = m1\<lparr>mem_size := n\<rparr>"
    by (auto simp: raw_resize_def split: sum.splits)
  from raw_reserve_step(1,2) [OF assms(1,2) m1] show "raw_step m h m' h'"
    by (simp add: m' raw_step_shrink)
  show "mem_size m' = n" by (simp add: m')
qed

lemma raw_with_size_step:
  assumes "wf_heap h" "raw_with_size A n h = Inr (m', h')"
  shows "raw_step raw_default h m' h'" and "mem_size m' = n" and "mem_capacity m' = n"
  using assms
  by (auto simp: raw_with_size_def malloc_def new_block_def raw_defs raw_default_def
      fresh_memory_def Let_def split: if_splits intro!: less_SucI)

lemma raw_step_trans:
  assumes "wf_heap h" "raw_step m h m1 h1" "raw_step m1 h1 m2 h2"
  shows "raw_step m h m2 h2"
proof -
  have keep: "blocks h2 b = blocks h b" if "mem_data m \<noteq> Some b" "mem_data m2 \<noteq> Some b" for b
  proof (cases "mem_data m1 = Some b")
    case True
    with that assms(2) have "next_block h \<le> b" by (auto simp: raw_step_def)
    with assms(1) have "blocks h b = None" by (cases "blocks h b") (auto simp: wf_heap_def)
    with True that assms(3) show ?thesis by (auto simp: raw_step_def)
  qed (use that assms in \<open>auto simp: raw_step_def\<close>)
  have freed: "blocks h2 b = None" if "mem_data m = Some b" "mem_data m2 \<noteq> Some b" for b
    using that assms by (cases "mem_data m1 = Some b") (auto simp: raw_step_def)
  have fresh: "mem_data m = Some b \<or> next_block h \<le> b" if "mem_data m2 = Some b" for b
    using that assms by (cases "mem_data m1 = Some b") (auto simp: raw_step_def)
  show ?thesis
    using assms keep freed fresh by (simp add: raw_step_def)
qed

text \<open>Copying the contents only writes the block of the target.\<close>

lemma copy_contents_step:
  assumes "wf_raw m h" "wf_heap h" "copy_contents m other h = Inr h'"
  shows "raw_step m h m h'"
  using assms
  by (auto simp: copy_contents_def memcpy_def raw_defs split: if_splits option.splits)

lemma copy_contents_total:
  assumes "wf_raw m h" "wf_raw other h" "mem_size m \<le> mem_capacity other"
  shows "\<exists>h'. copy_contents m other h = Inr h'"
  using assms
  by (auto simp: copy_contents_def memcpy_def wf_raw_def split: option.splits)

lemma raw_step_other:
  assumes "raw_step m h m' h'" "wf_raw other h" "wf_heap h"
    and "\<And>b. mem_data other = Some b \<Longrightarrow> mem_data m \<noteq> Some b"
  shows "wf_raw other h'" and "\<And>b. mem_data other = Some b \<Longrightarrow> mem_data m' \<noteq> Some b"
    and "raw_bytes other h' = raw_bytes other h"
proof -
  have *: "mem_data m' \<noteq> Some b \<and> blocks h' b = blocks h b" if "mem_data other = Some b" for b
  proof -
    from that assms(2) have "blocks h b \<noteq> None" by (auto simp: wf_raw_def split: option.splits)
    with assms(3) have "b < next_block h" by (auto simp: wf_heap_def)
    with assms(1,4) that show ?thesis by (auto simp: raw_step_def)
  qed
  show "\<And>b. mem_data other = Some b \<Longrightarrow> mem_data m' \<noteq> Some b" using * by blast
  show "wf_raw other h'" and "raw_bytes other h' = raw_bytes other h"
    using assms(2) *
    by (auto simp: wf_raw_def raw_bytes_def raw_data_def raw_size_def split: option.splits)
qed

section \<open>Allocation failures are the only failures\<close>

lemma raw_reserve_fault:
  "wf_raw m h \<Longrightarrow> raw_reserve A n m h = Inl f \<Longrightarrow> f = Bad_Alloc"
  by (auto simp: raw_reserve_def realloc_def malloc_def wf_raw_def split: if_splits option.splits)

lemma raw_resize_fault:
  "wf_raw m h \<Longrightarrow> raw_resize A n m h = Inl f \<Longrightarrow> f = Bad_Alloc"
  by (auto simp: raw_resize_def split: sum.splits dest: raw_reserve_fault)

lemma raw_with_size_fault: "raw_with_size A n h = Inl f \<Longrightarrow> f = Bad_Alloc"
  by (auto simp: raw_with_size_def Let_def split: if_splits prod.splits)

lemma free_total: "wf_raw m h \<Longrightarrow> \<exists>h'. free (mem_data m) h = Inr h'"
  by (auto simp: free_def wf_raw_def split: option.splits)

text \<open>The copy constructor is construction with a size followed by copying the contents.\<close>

lemma raw_copy_alt:
  "raw_copy A other h =
     (case raw_with_size A (mem_capacity other) h of
        Inl f \<Rightarrow> Inl f
      | Inr (m, h1) \<Rightarrow>
          (case copy_contents (m\<lparr>mem_size := mem_size other\<rparr>) other h1 of
             Inl f \<Rightarrow> Inl f
           | Inr h2 \<Rightarrow> Inr (m\<lparr>mem_size := mem_size other\<rparr>, h2)))"
  by (auto simp: raw_copy_def raw_with_size_def Let_def split: prod.splits sum.splits)

lemma raw_copy_step:
  assumes "wf_raw other h" "wf_heap h"
  shows "raw_copy A other h = Inl f \<Longrightarrow> f = Bad_Alloc"
    and "raw_copy A other h = Inr (m', h') \<Longrightarrow> raw_step raw_default h m' h'"
proof -
  let ?n = "mem_size other"
  have *: "(raw_copy A other h = Inl f \<longrightarrow> f = Bad_Alloc) \<and>
      (raw_copy A other h = Inr (m', h') \<longrightarrow> raw_step raw_default h m' h')"
  proof (cases "raw_with_size A (mem_capacity other) h")
    case (Inl g)
    then show ?thesis by (auto simp: raw_copy_alt dest: raw_with_size_fault)
  next
    case (Inr mh)
    then obtain m h1 where mh: "raw_with_size A (mem_capacity other) h = Inr (m, h1)"
      by (cases mh) auto
    note s1 = raw_with_size_step [OF assms(2) mh]
    from assms(1) have n: "?n \<le> mem_capacity other" by (simp add: wf_raw_def)
    with s1 have s2: "raw_step raw_default h (m\<lparr>mem_size := ?n\<rparr>) h1"
      by (intro raw_step_shrink) auto
    then have wf: "wf_raw (m\<lparr>mem_size := ?n\<rparr>) h1" "wf_heap h1" by (auto simp: raw_step_def)
    have "wf_raw other h1"
      using raw_step_other(1) [OF s1(1) assms] by (simp add: raw_default_def)
    with wf n obtain h2 where "copy_contents (m\<lparr>mem_size := ?n\<rparr>) other h1 = Inr h2"
      using copy_contents_total by fastforce
    moreover from wf this have "raw_step (m\<lparr>mem_size := ?n\<rparr>) h1 (m\<lparr>mem_size := ?n\<rparr>) h2"
      by (rule copy_contents_step)
    ultimately show ?thesis
      using mh raw_step_trans [OF assms(2) s2] by (auto simp: raw_copy_alt)
  qed
  show "raw_copy A other h = Inl f \<Longrightarrow> f = Bad_Alloc"
    and "raw_copy A other h = Inr (m', h') \<Longrightarrow> raw_step raw_default h m' h'"
    using * by auto
qed

lemma raw_copy_assign_step:
  assumes "wf_raw m h" "wf_raw other h" "wf_heap h"
    and distinct: "\<And>b. mem_data other = Some b \<Longrightarrow> mem_data m \<noteq> Some b"
  shows "raw_copy_assign A m other h = Inl f \<Longrightarrow> f = Bad_Alloc"
    and "raw_copy_assign A m other h = Inr (m', h') \<Longrightarrow> raw_step m h m' h'"
proof -
  have *: "(raw_copy_assign A m other h = Inl f \<longrightarrow> f = Bad_Alloc) \<and>
      (raw_copy_assign A m other h = Inr (m', h') \<longrightarrow> raw_step m h m' h')"
  proof (cases "raw_reserve A (mem_capacity other) m h")
    case (Inl g)
    then show ?thesis using assms(1) by (auto simp: raw_copy_assign_def dest: raw_reserve_fault)
  next
    case (Inr mh)
    then obtain m1 h1 where r1: "raw_reserve A (mem_capacity other) m h = Inr (m1, h1)"
      by (cases mh) auto
    note s1 = raw_reserve_step [OF assms(1,3) r1]
    from s1(1) have wf1: "wf_raw m1 h1" "wf_heap h1" by (auto simp: raw_step_def)
    note o1 = raw_step_other [OF s1(1) assms(2,3) distinct]
    from assms(2) have n: "mem_size other \<le> mem_capacity other" by (simp add: wf_raw_def)
    with s1(2) have r2: "raw_resize A (mem_size other) m1 h1 = Inr (m1\<lparr>mem_size := mem_size other\<rparr>, h1)"
      by (simp add: raw_resize_def raw_reserve_def)
    let ?m2 = "m1\<lparr>mem_size := mem_size other\<rparr>"
    from raw_resize_step(1) [OF wf1 r2] have s2: "raw_step m1 h1 ?m2 h1" .
    then have wf2: "wf_raw ?m2 h1" by (simp add: raw_step_def)
    with o1(1) n obtain h2 where r3: "copy_contents ?m2 other h1 = Inr h2"
      using copy_contents_total by fastforce
    from copy_contents_step [OF wf2 wf1(2) r3] have "raw_step ?m2 h1 ?m2 h2" .
    with s1(1) s2 have "raw_step m h ?m2 h2" using assms(3) wf1(2) by (blast intro: raw_step_trans)
    then show ?thesis by (auto simp: raw_copy_assign_def r1 r2 r3)
  qed
  show "raw_copy_assign A m other h = Inl f \<Longrightarrow> f = Bad_Alloc"
    and "raw_copy_assign A m other h = Inr (m', h') \<Longrightarrow> raw_step m h m' h'"
    using * by auto
qed

section \<open>Every operation keeps the ownership invariant\<close>

lemma raw_swap_eq [simp]: "raw_swap m other = (other, m)"
  by (simp add: raw_swap_def)

lemma raw_move_eq [simp]: "raw_move other = (other, raw_default)"
  by (simp add: raw_move_def raw_default_def)

lemma raw_move_assign_eq:
  "raw_move_assign m other h = map_sum id (\<lambda>h1. ((other, raw_default), h1)) (free (mem_data m) h)"
  by (simp add: raw_move_assign_def raw_default_def split: sum.splits)

lemma owns_put_obj:
  "owns (put_obj a s (m, h)) x b \<longleftrightarrow> (if x = a then mem_data m = Some b else owns s x b)"
  by (auto simp: owns_def put_obj_def)

lemma put_obj_wf:
  assumes s: "wf_store s" and a: "objs s a = Some m" and st: "raw_step m (heap_of s) m' h'"
  shows "wf_store (put_obj a s (m', h'))"
proof -
  from s have wfh: "wf_heap (heap_of s)"
    and wfr: "\<And>a m. objs s a = Some m \<Longrightarrow> wf_raw m (heap_of s)"
    and uniq: "\<And>a a' b. owns s a b \<Longrightarrow> owns s a' b \<Longrightarrow> a = a'"
    and noleak: "\<And>b. blocks (heap_of s) b \<noteq> None \<Longrightarrow> \<exists>a. owns s a b"
    unfolding wf_store_def by blast+
  have other: "wf_raw mo h' \<and> (\<forall>b. mem_data mo = Some b \<longrightarrow> mem_data m' \<noteq> Some b)"
    if "objs s x = Some mo" "x \<noteq> a" for x mo
  proof -
    have "mem_data m \<noteq> Some b" if "mem_data mo = Some b" for b
      using uniq [of x b a] that a \<open>objs s x = Some mo\<close> \<open>x \<noteq> a\<close> by (auto simp: owns_def)
    then show ?thesis
      using raw_step_other(1,2) [OF st wfr [OF that(1)] wfh] by blast
  qed
  have "\<exists>x. owns (put_obj a s (m', h')) x b" if "blocks h' b \<noteq> None" for b
  proof (cases "mem_data m' = Some b")
    case True
    then show ?thesis by (auto simp: owns_put_obj intro: exI [of _ a])
  next
    case False
    with st that have "mem_data m \<noteq> Some b" "blocks (heap_of s) b \<noteq> None"
      unfolding raw_step_def by metis+
    moreover from noleak [OF this(2)] obtain x where "owns s x b" by blast
    ultimately have "owns s x b" "x \<noteq> a" using a by (auto simp: owns_def)
    then show ?thesis by (auto simp: owns_put_obj)
  qed
  moreover have "x = y" if "owns (put_obj a s (m', h')) x b" "owns (put_obj a s (m', h')) y b"
    for x y b
  proof -
    have "mem_data m' \<noteq> Some b" if "owns s z b" "z \<noteq> a" for z
      using that other by (auto simp: owns_def)
    with that uniq show ?thesis unfolding owns_put_obj by metis
  qed
  moreover have "wf_heap h'" "wf_raw m' h'" using st by (auto simp: raw_step_def)
  ultimately show ?thesis
    using other by (auto simp: wf_store_def put_obj_def)
qed

lemma construct_default_wf:
  "wf_store s \<Longrightarrow> objs s a = None \<Longrightarrow> wf_store (put_obj a s (raw_default, heap_of s))"
  by (auto simp: wf_store_def put_obj_def owns_def raw_default_def wf_raw_def) (metis option.distinct(1))

lemma put_obj_twice [simp]: "put_obj a (put_obj a s mh) mh' = put_obj a s mh'"
  by (simp add: put_obj_def)

lemma construct_wf:
  assumes "wf_store s" "objs s a = None" "raw_step raw_default (heap_of s) m' h'"
  shows "wf_store (put_obj a s (m', h'))"
  using put_obj_wf [OF construct_default_wf [OF assms(1,2)], of a raw_default m' h'] assms(3)
  by (simp add: put_obj_def)

lemma exchange_wf:
  assumes "wf_store s" "objs s a = Some m" "objs s b = Some other" "a \<noteq> b"
  shows "wf_store (put_two a b s ((other, m), heap_of s))"
proof -
  have "owns (put_two a b s ((other, m), heap_of s)) x =
      owns s (if x = a then b else if x = b then a else x)" for x
    using assms(2,3,4) by (auto simp: owns_def put_two_def fun_eq_iff)
  with assms show ?thesis
    by (auto simp: wf_store_def put_two_def split: if_splits) metis+
qed

lemma free_step:
  assumes "wf_raw m h" "wf_heap h" "free (mem_data m) h = Inr h'"
  shows "raw_step m h raw_default h'"
  using assms
  by (auto simp: free_def raw_defs raw_default_def split: option.splits if_splits)

lemma put_two_eq:
  "put_two a b s ((m, other), h) = put_obj b (put_obj a s (m, h)) (other, h)"
  by (simp add: put_two_def put_obj_def)

lemma move_assign_wf:
  assumes "wf_store s" "objs s a = Some m" "objs s b = Some other" "a \<noteq> b"
    and "raw_move_assign m other (heap_of s) = Inr (mo, h')"
  shows "wf_store (put_two a b s (mo, h'))"
proof -
  from assms(5) have fr: "free (mem_data m) (heap_of s) = Inr h'" and mo: "mo = (other, raw_default)"
    by (auto simp: raw_move_assign_eq map_sum_def split: sum.splits)
  from assms(1,2) have "wf_raw m (heap_of s)" "wf_heap (heap_of s)" by (auto simp: wf_store_def)
  from put_obj_wf [OF assms(1,2) free_step [OF this fr]]
  have "wf_store (put_obj a s (raw_default, h'))" .
  then have "wf_store (put_two a b (put_obj a s (raw_default, h')) ((other, raw_default), h'))"
    using exchange_wf [of "put_obj a s (raw_default, h')" a raw_default b other] assms(3,4)
    by (simp add: put_obj_def)
  then show ?thesis by (simp add: mo put_two_def put_obj_def)
qed

lemma destroy_wf:
  assumes "wf_store s" "objs s a = Some m" "raw_destroy m (heap_of s) = Inr h'"
  shows "wf_store (s\<lparr>objs := (objs s)(a := None), heap_of := h'\<rparr>)"
proof -
  from assms(1,2) have "wf_raw m (heap_of s)" "wf_heap (heap_of s)" by (auto simp: wf_store_def)
  from put_obj_wf [OF assms(1,2) free_step [OF this]] assms(3)
  have "wf_store (put_obj a s (raw_default, h'))" by (simp add: raw_destroy_def)
  moreover have "owns (s\<lparr>objs := (objs s)(a := None), heap_of := h'\<rparr>) =
      owns (put_obj a s (raw_default, h'))"
    by (auto simp: owns_def put_obj_def raw_default_def fun_eq_iff)
  ultimately show ?thesis by (auto simp: wf_store_def put_obj_def split: if_splits)
qed

lemma with_obj_Inr: "with_obj a s f = Inr r \<longleftrightarrow> (\<exists>m. objs s a = Some m \<and> f m = Inr r)"
  by (simp add: with_obj_def split: option.splits)

lemma with_obj_Some [simp]: "objs s a = Some m \<Longrightarrow> with_obj a s f = f m"
  by (simp add: with_obj_def)

lemma map_sum_Inr: "map_sum id f r = Inr t \<longleftrightarrow> (\<exists>x. r = Inr x \<and> t = f x)"
  by (cases r) auto

lemma map_sum_Inl: "map_sum id f r = Inl e \<longleftrightarrow> r = Inl e"
  by (cases r) auto

lemma wf_storeD:
  assumes "wf_store s"
  shows "wf_heap (heap_of s)" "objs s a = Some m \<Longrightarrow> wf_raw m (heap_of s)"
    "objs s a = Some m \<Longrightarrow> objs s b = Some other \<Longrightarrow> a \<noteq> b \<Longrightarrow>
       mem_data other = Some k \<Longrightarrow> mem_data m \<noteq> Some k"
  using assms by (auto simp: wf_store_def owns_def)

lemma exec_wf:
  assumes wf: "wf_store s" and en: "enabled op s" and ex: "exec A op s = Inr t"
  shows "wf_store t"
proof (cases op)
  case (Construct a)
  with assms show ?thesis by (auto intro: construct_default_wf)
next
  case (Construct_Size a n)
  with assms show ?thesis
    by (auto simp: map_sum_Inr intro!: construct_wf raw_with_size_step wf_storeD)
next
  case (Construct_Copy a b)
  with assms show ?thesis
    by (auto simp: map_sum_Inr with_obj_Inr intro!: construct_wf intro: raw_copy_step wf_storeD)
next
  case (Construct_Move a b)
  with en obtain other where o: "objs s a = None" "objs s b = Some other" by auto
  then have "a \<noteq> b" by auto
  with o exchange_wf [OF construct_default_wf [OF wf o(1)], of a raw_default b other]
  have "wf_store (put_two a b s ((other, raw_default), heap_of s))"
    by (simp add: put_obj_def put_two_def)
  with o ex show ?thesis by (auto simp: Construct_Move)
next
  case (Assign_Copy a b)
  show ?thesis
  proof (cases "a = b")
    case True
    with Assign_Copy wf ex show ?thesis by (auto simp: with_obj_Inr)
  next
    case False
    with Assign_Copy ex obtain m other m' h' where o: "objs s a = Some m" "objs s b = Some other"
      and c: "raw_copy_assign A m other (heap_of s) = Inr (m', h')" and t: "t = put_obj a s (m', h')"
      by (auto simp: map_sum_Inr with_obj_Inr)
    have "raw_step m (heap_of s) m' h'"
      using raw_copy_assign_step(2) [OF _ _ _ _ c] wf_storeD [OF wf] o False by blast
    with wf o show ?thesis unfolding t by (intro put_obj_wf)
  qed
next
  case (Assign_Move a b)
  show ?thesis
  proof (cases "a = b")
    case False
    with Assign_Move ex obtain m other mo h' where o: "objs s a = Some m" "objs s b = Some other"
      and c: "raw_move_assign m other (heap_of s) = Inr (mo, h')" and t: "t = put_two a b s (mo, h')"
      by (auto simp: map_sum_Inr with_obj_Inr)
    show ?thesis unfolding t by (rule move_assign_wf [OF wf o False c])
  qed (use Assign_Move wf ex in \<open>auto simp: with_obj_Inr\<close>)
next
  case (Swap a b)
  show ?thesis
  proof (cases "a = b")
    case False
    with Swap ex obtain m other where o: "objs s a = Some m" "objs s b = Some other"
      and t: "t = put_two a b s ((other, m), heap_of s)"
      by (auto simp: with_obj_Inr)
    show ?thesis unfolding t by (rule exchange_wf [OF wf o False])
  qed (use Swap wf ex in \<open>auto simp: with_obj_Inr\<close>)
next
  case (Reserve a n)
  with wf ex show ?thesis
    by (auto simp: map_sum_Inr with_obj_Inr intro!: put_obj_wf intro: raw_reserve_step wf_storeD)
next
  case (Resize a n)
  with wf ex show ?thesis
    by (auto simp: map_sum_Inr with_obj_Inr intro!: put_obj_wf intro: raw_resize_step wf_storeD)
next
  case (Destroy a)
  with wf ex show ?thesis
    by (auto simp: map_sum_Inr with_obj_Inr intro: destroy_wf)
qed

lemma exec_fault:
  assumes wf: "wf_store s" and en: "enabled op s" and ex: "exec A op s = Inl f"
  shows "f = Bad_Alloc"
proof -
  note d = wf_storeD [OF wf]
  have free: "free (mem_data m) (heap_of s) \<noteq> Inl f" if "objs s a = Some m" for a m
    using free_total [OF d(2) [OF that]] by auto
  have reserve: "f = Bad_Alloc"
    if "objs s a = Some m" "raw_reserve A n m (heap_of s) = Inl f" for a m n
    using raw_reserve_fault [OF d(2) [OF that(1)] that(2)] .
  have resize: "f = Bad_Alloc"
    if "objs s a = Some m" "raw_resize A n m (heap_of s) = Inl f" for a m n
    using raw_resize_fault [OF d(2) [OF that(1)] that(2)] .
  have copy: "f = Bad_Alloc"
    if "objs s a = Some m" "raw_copy A m (heap_of s) = Inl f" for a m
    using raw_copy_step(1) [OF d(2) [OF that(1)] d(1) that(2)] .
  have assign: "f = Bad_Alloc"
    if "objs s a = Some m" "objs s b = Some other" "a \<noteq> b"
      "raw_copy_assign A m other (heap_of s) = Inl f" for a b m other
    using raw_copy_assign_step(1) [OF d(2) [OF that(1)] d(2) [OF that(2)] d(1) _ that(4)]
      d(3) [OF that(1-3)] by blast
  show ?thesis
    using en ex
    by (cases op)
      (auto simp: map_sum_Inl raw_move_assign_eq raw_destroy_def free split: if_splits
        dest: raw_with_size_fault reserve resize copy assign)
qed

lemma reachable_wf: "reachable A s \<Longrightarrow> wf_store s"
  by (induction rule: reachable.induct) (auto intro: wf_store_empty exec_wf)

section \<open>Contents\<close>

definition obj_bytes :: "store \<Rightarrow> nat \<Rightarrow> byte list" where
  "obj_bytes s a = (case objs s a of None \<Rightarrow> [] | Some m \<Rightarrow> raw_bytes m (heap_of s))"

lemma copy_contents_bytes:
  assumes "wf_raw m h" "wf_raw other h" "mem_size m = mem_size other"
    and "copy_contents m other h = Inr h'"
  shows "raw_bytes m h' = raw_bytes other h"
  using assms
  by (auto simp: copy_contents_def memcpy_def wf_raw_def raw_bytes_def raw_data_def raw_size_def
      overwrite_def split: option.splits if_splits)

lemma raw_resize_bytes:
  assumes "wf_raw m h" "raw_resize A n m h = Inr (m', h')"
  shows "take (mem_size m) (raw_bytes m' h') = take n (raw_bytes m h)"
  using assms
  by (auto simp: raw_resize_def raw_reserve_def realloc_def malloc_def new_block_def wf_raw_def
      raw_bytes_def raw_data_def raw_size_def min_def take_Cons' split: option.splits if_splits)

lemma raw_copy_assign_bytes:
  assumes "wf_raw m h" "wf_raw other h" "wf_heap h"
    and "\<And>b. mem_data other = Some b \<Longrightarrow> mem_data m \<noteq> Some b"
    and "raw_copy_assign A m other h = Inr (m', h')"
  shows "raw_bytes m' h' = raw_bytes other h"
proof -
  from assms(5) obtain m1 h1 m2 h2 where r1: "raw_reserve A (mem_capacity other) m h = Inr (m1, h1)"
    and r2: "raw_resize A (mem_size other) m1 h1 = Inr (m2, h2)"
    and cc: "copy_contents m2 other h2 = Inr h'" and m': "m' = m2"
    by (auto simp: raw_copy_assign_def split: sum.splits)
  note s1 = raw_reserve_step(1) [OF assms(1,3) r1]
  then have wf1: "wf_raw m1 h1" "wf_heap h1" by (auto simp: raw_step_def)
  note s2 = raw_step_trans [OF assms(3) s1 raw_resize_step(1) [OF wf1 r2]]
  note o2 = raw_step_other [OF s2 assms(2,3,4)]
  from s2 have "wf_raw m2 h2" by (simp add: raw_step_def)
  from copy_contents_bytes [OF this o2(1) raw_resize_step(2) [OF wf1 r2] cc] o2(3) m'
  show ?thesis by simp
qed

lemma put_obj_other_bytes:
  assumes "wf_store s" "objs s a = Some m" "raw_step m (heap_of s) m' h'" "c \<noteq> a"
  shows "obj_bytes (put_obj a s (m', h')) c = obj_bytes s c"
proof (cases "objs s c")
  case None
  with assms(4) show ?thesis by (simp add: obj_bytes_def put_obj_def)
next
  case (Some mc)
  have "raw_bytes mc h' = raw_bytes mc (heap_of s)"
  proof (rule raw_step_other(3) [OF assms(3)])
    show "wf_raw mc (heap_of s)" using wf_storeD(2) [OF assms(1) Some] .
    show "wf_heap (heap_of s)" using wf_storeD(1) [OF assms(1)] .
    show "\<And>k. mem_data mc = Some k \<Longrightarrow> mem_data m \<noteq> Some k"
      using wf_storeD(3) [OF assms(1,2) Some] assms(4) by blast
  qed
  with Some assms(4) show ?thesis by (simp add: obj_bytes_def put_obj_def)
qed

text \<open>A concrete program for the witnesses: two objects of four and of two bytes.\<close>

definition demo_allocator :: allocator where
  "demo_allocator = \<lparr>avail = \<lambda>_ _. True, fill = \<lambda>i. of_nat i + 1\<rparr>"

definition demo_store :: store where
  "demo_store =
     \<lparr>objs = [0 \<mapsto> \<lparr>mem_data = Some 0, mem_capacity = 4, mem_size = 4\<rparr>,
              1 \<mapsto> \<lparr>mem_data = Some 1, mem_capacity = 2, mem_size = 2\<rparr>],
      heap_of = \<lparr>blocks = [0 \<mapsto> [1, 2, 3, 4], 1 \<mapsto> [1, 2]], next_block = 2\<rparr>\<rparr>"

definition demo_exec :: "raw_op list \<Rightarrow> store \<Rightarrow> fault + store" where
  "demo_exec ops s =
     foldl (\<lambda>r op. case r of Inl f \<Rightarrow> Inl f
       | Inr s \<Rightarrow> if enabled op s then exec demo_allocator op s else Inl Invalid_Free) (Inr s) ops"

lemma demo_exec_reachable:
  "reachable demo_allocator s \<Longrightarrow> demo_exec ops s = Inr t \<Longrightarrow> reachable demo_allocator t"
proof (induction ops arbitrary: t rule: rev_induct)
  case Nil
  then show ?case by (simp add: demo_exec_def)
next
  case (snoc op ops)
  then obtain u where "demo_exec ops s = Inr u" "enabled op u" "exec demo_allocator op u = Inr t"
    by (auto simp: demo_exec_def split: sum.splits if_splits)
  with snoc show ?case by (auto intro: step)
qed

lemmas raw_eval =
  demo_allocator_def demo_store_def empty_store_def raw_with_size_def raw_reserve_def raw_resize_def
  raw_copy_assign_def copy_contents_def raw_destroy_def malloc_def realloc_def memcpy_def free_def
  new_block_def fresh_memory_def put_obj_def with_obj_def overwrite_def raw_bytes_def obj_bytes_def
  raw_size_def raw_data_def raw_capacity_def upt_conv_Cons

lemma demo_store_exec:
  "demo_exec [Construct_Size 0 4, Construct_Size 1 2] empty_store = Inr demo_store"
  by (simp add: demo_exec_def raw_eval)

lemma demo_store_reachable: "reachable demo_allocator demo_store"
  by (rule demo_exec_reachable [OF start demo_store_exec])

section \<open>Properties\<close>

text \<open>
  C14: memory safety of \<^verbatim>\<open>RawMemory\<close>. In every state a program can reach through the
  class's constructors, assignments, \<^verbatim>\<open>swap\<close>, \<^verbatim>\<open>reserve\<close>,
  \<^verbatim>\<open>resize\<close> and destructor (self-assignment included), the next operation either
  succeeds or throws \<^verbatim>\<open>std::bad_alloc\<close>: it never frees a block twice, never uses a
  freed block and never reads or writes outside one.
\<close>

theorem raw_memory_safe:
  assumes "reachable A s" and "enabled op s"
  shows "(\<exists>t. exec A op s = Inr t) \<or> exec A op s = Inl Bad_Alloc"
  using exec_fault [OF reachable_wf [OF assms(1)] assms(2)] by (cases "exec A op s") auto

theorem raw_memory_safe_witness:
  "enabled (Assign_Move 0 0) demo_store \<and>
   ((\<exists>t. exec demo_allocator (Assign_Move 0 0) demo_store = Inr t) \<or>
    exec demo_allocator (Assign_Move 0 0) demo_store = Inl Bad_Alloc)"
proof -
  have e: "enabled (Assign_Move 0 0) demo_store" by (simp add: demo_store_def)
  from e raw_memory_safe [OF demo_store_reachable e] show ?thesis by blast
qed

text \<open>
  C22: no leak. When every object of a reachable state has been destroyed, the heap is empty.
\<close>

theorem raw_memory_no_leak:
  assumes "reachable A s" and "objs s = Map.empty"
  shows "blocks (heap_of s) = Map.empty"
  using reachable_wf [OF assms(1)] assms(2)
  by (auto simp: wf_store_def owns_def fun_eq_iff)

theorem raw_memory_no_leak_witness:
  "\<exists>s. demo_exec [Destroy 0, Destroy 1] demo_store = Inr s \<and> objs s = Map.empty \<and>
     blocks (heap_of s) = Map.empty"
proof -
  let ?s = "\<lparr>objs = Map.empty, heap_of = \<lparr>blocks = Map.empty, next_block = 2\<rparr>\<rparr> :: store"
  have e: "demo_exec [Destroy 0, Destroy 1] demo_store = Inr ?s"
    by (simp add: demo_exec_def raw_eval fun_upd_twist)
  from raw_memory_no_leak [OF demo_exec_reachable [OF demo_store_reachable e]] e show ?thesis
    by auto
qed

text \<open>
  Copy assignment copies. After \<^verbatim>\<open>a = b\<close> the bytes of \<^verbatim>\<open>a\<close> are those
  \<^verbatim>\<open>b\<close> had, and every other object, \<^verbatim>\<open>b\<close> included, still has its own
  bytes; this covers \<^verbatim>\<open>a = a\<close>.
\<close>

lemma raw_memory_copy_assign:
  assumes "reachable A s" and "exec A (Assign_Copy a b) s = Inr t"
  shows "obj_bytes t c = obj_bytes s (if c = a then b else c)"
proof (cases "a = b")
  case True
  with assms(2) show ?thesis by (auto simp: with_obj_Inr)
next
  case False
  note wf = reachable_wf [OF assms(1)]
  from False assms(2) obtain m other m' h' where o: "objs s a = Some m" "objs s b = Some other"
    and c: "raw_copy_assign A m other (heap_of s) = Inr (m', h')" and t: "t = put_obj a s (m', h')"
    by (auto simp: map_sum_Inr with_obj_Inr)
  note p = wf_storeD(2) [OF wf o(1)] wf_storeD(2) [OF wf o(2)] wf_storeD(1) [OF wf]
    wf_storeD(3) [OF wf o False]
  from raw_copy_assign_bytes [OF p c] have "obj_bytes t a = obj_bytes s b"
    using o(2) by (simp add: t obj_bytes_def put_obj_def)
  with put_obj_other_bytes [OF wf o(1) raw_copy_assign_step(2) [OF p c]]
  show ?thesis by (simp add: t)
qed

lemma raw_memory_copy_assign_witness:
  "\<exists>t. exec demo_allocator (Assign_Copy 1 0) demo_store = Inr t \<and>
     obj_bytes t 1 = obj_bytes demo_store 0 \<and> obj_bytes demo_store 0 = [1, 2, 3, 4]"
proof -
  obtain t where e: "exec demo_allocator (Assign_Copy 1 0) demo_store = Inr t"
    by (simp add: raw_eval)
  from raw_memory_copy_assign [OF demo_store_reachable e, of 1] e show ?thesis
    by (simp add: raw_eval)
qed

text \<open>
  Resizing. It sets the size exactly, keeps the common prefix of the old and the new
  contents, never lowers the capacity, and neither moves the block nor touches the heap when
  the capacity is already large enough.
\<close>

lemma raw_memory_resize:
  assumes "reachable A s" and "objs s a = Some m" and "raw_resize A n m (heap_of s) = Inr (m', h')"
  shows "raw_size m' = n \<and> length (raw_bytes m' h') = n \<and>
    take (raw_size m) (raw_bytes m' h') = take n (raw_bytes m (heap_of s)) \<and>
    raw_capacity m' = max n (raw_capacity m) \<and>
    (n \<le> raw_capacity m \<longrightarrow> raw_data m' = raw_data m \<and> h' = heap_of s)"
proof (intro conjI)
  note wf = wf_storeD(2) [OF reachable_wf [OF assms(1)] assms(2)]
    wf_storeD(1) [OF reachable_wf [OF assms(1)]]
  note st = raw_resize_step [OF wf assms(3)]
  show "raw_size m' = n" using st(2) by (simp add: raw_size_def)
  show "length (raw_bytes m' h') = n"
    using st by (auto simp: raw_step_def wf_raw_def raw_bytes_def raw_data_def raw_size_def
        split: option.splits)
  show "take (raw_size m) (raw_bytes m' h') = take n (raw_bytes m (heap_of s))"
    using raw_resize_bytes [OF wf(1) assms(3)] by (simp add: raw_size_def)
  show "raw_capacity m' = max n (raw_capacity m)"
    and "n \<le> raw_capacity m \<longrightarrow> raw_data m' = raw_data m \<and> h' = heap_of s"
    using assms(3) by (auto simp: raw_resize_def raw_reserve_def raw_capacity_def raw_data_def
        split: if_splits sum.splits)
qed

lemma raw_memory_resize_witness:
  "\<exists>m m' h'. objs demo_store 0 = Some m \<and>
     raw_resize demo_allocator 2 m (heap_of demo_store) = Inr (m', h') \<and>
     raw_bytes m (heap_of demo_store) = [1, 2, 3, 4] \<and> length (raw_bytes m' h') = 2 \<and>
     raw_data m' = raw_data m"
proof -
  let ?m = "\<lparr>mem_data = Some 0, mem_capacity = 4, mem_size = 4\<rparr> :: RawMemory"
  have m: "objs demo_store 0 = Some ?m" by (simp add: demo_store_def)
  have r: "raw_resize demo_allocator 2 ?m (heap_of demo_store) = Inr (?m\<lparr>mem_size := 2\<rparr>, heap_of demo_store)"
    by (simp add: raw_eval)
  from raw_memory_resize [OF demo_store_reachable m r] m r show ?thesis
    by (intro exI [of _ ?m] exI [of _ "?m\<lparr>mem_size := 2\<rparr>"] exI [of _ "heap_of demo_store"])
      (simp add: raw_eval)
qed

end
