(* ===== verification/Header.thy ===== *)
theory Header
  imports Endian
begin

text \<open>
  The headers of the protocol (src/ecaludp/src/protocol/header_common.h and header_v5.h) as
  they lie in memory: a packed structure of 24 bytes, whose integers are little-endian on the
  wire. The builder writes its fields one by one, the reassembly reads them one by one, both
  through the conversion macros of \<open>Endian\<close>; the host's byte order is a parameter.
\<close>

type_synonym magic = "byte \<times> byte \<times> byte \<times> byte"

text \<open>The enumeration of datagram types, with the values of the enumerators.\<close>

datatype datagram_type_uint32t =
    datagram_type_unknown
  | datagram_type_fragmented_message_info
  | datagram_type_fragment
  | datagram_type_non_fragmented_message

primrec type_value :: "datagram_type_uint32t \<Rightarrow> u32" where
  "type_value datagram_type_unknown = 0"
| "type_value datagram_type_fragmented_message_info = 1"
| "type_value datagram_type_fragment = 2"
| "type_value datagram_type_non_fragmented_message = 3"

section \<open>The layout\<close>

definition sizeof_HeaderCommon :: nat where "sizeof_HeaderCommon = 5"
definition sizeof_Header :: nat where "sizeof_Header = 24"

definition offset_version :: nat where "offset_version = 4"
definition offset_type :: nat where "offset_type = 8"
definition offset_id :: nat where "offset_id = 12"
definition offset_num :: nat where "offset_num = 16"
definition offset_len :: nat where "offset_len = 20"

lemmas layout = sizeof_HeaderCommon_def sizeof_Header_def offset_version_def offset_type_def
  offset_id_def offset_num_def offset_len_def

section \<open>Reading\<close>

text \<open>
  The fields as the receiving code reads them from a buffer; the readers are only used on
  buffers whose size has been checked.
\<close>

definition header_magic :: "byte list \<Rightarrow> byte list" where
  "header_magic bs = slice 0 4 bs"

definition header_version :: "byte list \<Rightarrow> byte" where
  "header_version bs = bs ! offset_version"

definition header_type :: "host \<Rightarrow> byte list \<Rightarrow> u32" where
  "header_type h bs = le32.get_field h offset_type bs"

definition header_id :: "host \<Rightarrow> byte list \<Rightarrow> u32" where
  "header_id h bs = le32.get_field h offset_id bs"

definition header_num :: "host \<Rightarrow> byte list \<Rightarrow> u32" where
  "header_num h bs = le32.get_field h offset_num bs"

definition header_len :: "host \<Rightarrow> byte list \<Rightarrow> u32" where
  "header_len h bs = le32.get_field h offset_len bs"

lemmas header_reads = header_magic_def header_version_def header_type_def header_id_def
  header_num_def header_len_def

section \<open>Writing\<close>

text \<open>
  \<^verbatim>\<open>header_buffer_.resize(sizeof(Header))\<close>, then the assignments to the fields; the
  reserved bytes keep the zero of the resize.
\<close>

fun write_magic :: "magic \<Rightarrow> byte list \<Rightarrow> byte list" where
  "write_magic (m0, m1, m2, m3) bs = bs[0 := m0, 1 := m1, 2 := m2, 3 := m3]"

definition fill_header :: "host \<Rightarrow> magic \<Rightarrow> u32 \<Rightarrow> u32 \<Rightarrow> u32 \<Rightarrow> u32 \<Rightarrow> byte list" where
  "fill_header h m ty i n l =
     (let b = vector_resize 0 sizeof_Header [];
          b = write_magic m b;
          b = b[offset_version := 5];
          b = le32.put_field h offset_type ty b;
          b = le32.put_field h offset_id i b;
          b = le32.put_field h offset_num n b;
          b = le32.put_field h offset_len l b
      in b)"

text \<open>The update of the length of a fragment while its payload is collected.\<close>

definition add_to_len :: "host \<Rightarrow> u32 \<Rightarrow> byte list \<Rightarrow> byte list" where
  "add_to_len h n b = le32.put_field h offset_len (header_len h b + n) b"

section \<open>The bytes on the wire\<close>

fun magic_bytes :: "magic \<Rightarrow> byte list" where
  "magic_bytes (m0, m1, m2, m3) = [m0, m1, m2, m3]"

text \<open>The protocol description of the header: the same bytes whatever the host.\<close>

definition wire_header :: "magic \<Rightarrow> u32 \<Rightarrow> u32 \<Rightarrow> u32 \<Rightarrow> u32 \<Rightarrow> byte list" where
  "wire_header m ty i n l =
     magic_bytes m @ [5, 0, 0, 0] @ le_bytes 4 ty @ le_bytes 4 i @ le_bytes 4 n @ le_bytes 4 l"

lemma length_magic_bytes [simp]: "length (magic_bytes m) = 4"
  by (cases m) simp

lemma length_wire_header [simp]: "length (wire_header m ty i n l) = sizeof_Header"
  by (simp add: wire_header_def layout)

text \<open>A field overwritten: the parts of the header around it stay.\<close>

lemma put_field_append:
  "length pre = off \<Longrightarrow> length mid = 4 \<Longrightarrow>
     le32.put_field h off v (pre @ mid @ rest) = pre @ le_bytes 4 v @ rest"
  by (simp add: le32.put_field_def put_le32_host overwrite_append)

lemma get_field_append:
  "length pre = off \<Longrightarrow> le32.get_field h off (pre @ le_bytes 4 v @ rest) = v"
  by (simp add: le32.get_field_def slice_append_exact get_le32_host le_word_le_bytes)

lemma fresh_header:
  "(write_magic m (vector_resize 0 sizeof_Header []))[offset_version := 5] =
     (magic_bytes m @ [5, 0, 0, 0]) @ [0, 0, 0, 0] @ [0, 0, 0, 0] @ [0, 0, 0, 0] @ [0, 0, 0, 0]"
  by (cases m) (simp add: layout vector_resize_def numeral_eq_Suc)

lemma fill_header_wire [wire]: "fill_header h m ty i n l = wire_header m ty i n l"
proof -
  let ?p = "magic_bytes m @ [5, 0, 0, 0]" and ?z = "[0, 0, 0, 0] :: byte list"
  have "le32.put_field h offset_type ty (?p @ ?z @ ?z @ ?z @ ?z) =
      (?p @ le_bytes 4 ty) @ ?z @ ?z @ ?z"
    using put_field_append [of ?p offset_type ?z h ty "?z @ ?z @ ?z"] by (simp add: layout)
  moreover have "le32.put_field h offset_id i ((?p @ le_bytes 4 ty) @ ?z @ ?z @ ?z) =
      (?p @ le_bytes 4 ty @ le_bytes 4 i) @ ?z @ ?z"
    using put_field_append [of "?p @ le_bytes 4 ty" offset_id ?z h i "?z @ ?z"]
    by (simp add: layout)
  moreover have "le32.put_field h offset_num n ((?p @ le_bytes 4 ty @ le_bytes 4 i) @ ?z @ ?z) =
      (?p @ le_bytes 4 ty @ le_bytes 4 i @ le_bytes 4 n) @ ?z @ []"
    using put_field_append [of "?p @ le_bytes 4 ty @ le_bytes 4 i" offset_num ?z h n ?z]
    by (simp add: layout)
  moreover have "le32.put_field h offset_len l
      ((?p @ le_bytes 4 ty @ le_bytes 4 i @ le_bytes 4 n) @ ?z @ []) = wire_header m ty i n l"
    using put_field_append [of "?p @ le_bytes 4 ty @ le_bytes 4 i @ le_bytes 4 n" offset_len ?z h l "[]"]
    by (simp add: layout wire_header_def)
  ultimately show ?thesis
    by (simp only: fill_header_def Let_def fresh_header)
qed

text \<open>Reading the fields of a datagram that starts with such a header.\<close>

lemma wire_header_fields [wire]:
  "header_magic (wire_header m ty i n l @ p) = magic_bytes m"
  "header_version (wire_header m ty i n l @ p) = 5"
  "header_type h (wire_header m ty i n l @ p) = ty"
  "header_id h (wire_header m ty i n l @ p) = i"
  "header_num h (wire_header m ty i n l @ p) = n"
  "header_len h (wire_header m ty i n l @ p) = l"
proof -
  let ?p = "magic_bytes m @ [5, 0, 0, 0]"
  show "header_magic (wire_header m ty i n l @ p) = magic_bytes m"
    by (simp add: header_magic_def wire_header_def slice_def)
  show "header_version (wire_header m ty i n l @ p) = 5"
    by (simp add: header_version_def wire_header_def nth_append layout)
  show "header_type h (wire_header m ty i n l @ p) = ty"
    using get_field_append [of ?p offset_type h ty] by (simp add: header_type_def wire_header_def layout)
  show "header_id h (wire_header m ty i n l @ p) = i"
    using get_field_append [of "?p @ le_bytes 4 ty" offset_id h i]
    by (simp add: header_id_def wire_header_def layout)
  show "header_num h (wire_header m ty i n l @ p) = n"
    using get_field_append [of "?p @ le_bytes 4 ty @ le_bytes 4 i" offset_num h n]
    by (simp add: header_num_def wire_header_def layout)
  show "header_len h (wire_header m ty i n l @ p) = l"
    using get_field_append [of "?p @ le_bytes 4 ty @ le_bytes 4 i @ le_bytes 4 n" offset_len h l]
    by (simp add: header_len_def wire_header_def layout)
qed

lemma add_to_len_wire [wire]:
  "add_to_len h k (wire_header m ty i n l) = wire_header m ty i n (l + k)"
  using wire_header_fields(6) [of h m ty i n l "[]"]
    put_field_append [of "magic_bytes m @ [5, 0, 0, 0] @ le_bytes 4 ty @ le_bytes 4 i @ le_bytes 4 n"
      offset_len "le_bytes 4 l" h "l + k" "[]"]
  by (simp add: add_to_len_def wire_header_def layout)

section \<open>Properties\<close>

text \<open>
  C21: the header is host independent and lossless. What a little-endian or a big-endian sender
  writes field by field are the bytes of the protocol description (the integers
  little-endian, the version 5, the reserved bytes 0), 24 in number, and a receiver of either
  byte order reads back every field, whatever payload follows.
\<close>

theorem header_roundtrip:
  "fill_header h m ty i n l =
     magic_bytes m @ [5, 0, 0, 0] @ le_bytes 4 ty @ le_bytes 4 i @ le_bytes 4 n @ le_bytes 4 l \<and>
   length (fill_header h m ty i n l) = sizeof_Header \<and>
   header_magic (fill_header h m ty i n l @ p) = magic_bytes m \<and>
   header_version (fill_header h m ty i n l @ p) = 5 \<and>
   header_type h' (fill_header h m ty i n l @ p) = ty \<and>
   header_id h' (fill_header h m ty i n l @ p) = i \<and>
   header_num h' (fill_header h m ty i n l @ p) = n \<and>
   header_len h' (fill_header h m ty i n l @ p) = l"
  by (simp add: wire) (simp add: wire_header_def)

end
