(* ===== verification/Datagram_Builder.thy ===== *)
theory Datagram_Builder
  imports Header
begin

text \<open>
  The sending side of the protocol: \<^verbatim>\<open>DatagramDescription\<close>
  (src/ecaludp/src/protocol/datagram_description.h), the generator of message ids and the
  functions that turn the buffers of a user into datagrams
  (src/ecaludp/src/protocol/datagram_builder_v5.h and .cpp). Payload is never copied: a
  datagram is a list of pointers into the user's memory, led by a pointer to the header the
  datagram owns, and the header changes after the pointer to it has been stored. Pointers are
  therefore explicit, and the bytes of a datagram are those found when it is sent.
\<close>

unbundle bit_operations_syntax

section \<open>Buffers and datagrams\<close>

text \<open>
  A pointer into a block of the user's memory, or into the header buffer of the datagram the
  pointer is part of (which keeps its address when the datagram is moved).
\<close>

datatype ptr = User_Memory nat nat | Header_Memory nat

fun ptr_add :: "ptr \<Rightarrow> nat \<Rightarrow> ptr" where
  "ptr_add (User_Memory b o1) n = User_Memory b (o1 + n)"
| "ptr_add (Header_Memory o1) n = Header_Memory (o1 + n)"

record const_buffer =
  cb_data :: ptr
  cb_size :: nat

record DatagramDescription =
  header_buffer :: "byte list"
  asio_buffer_list :: "const_buffer list"

type_synonym DatagramList = "DatagramDescription list"

text \<open>The memory of the user: the bytes of each block.\<close>

type_synonym memory = "nat \<Rightarrow> byte list"

fun ptr_bytes :: "memory \<Rightarrow> byte list \<Rightarrow> ptr \<Rightarrow> nat \<Rightarrow> byte list" where
  "ptr_bytes mem hdr (User_Memory b o1) n = slice o1 n (mem b)"
| "ptr_bytes mem hdr (Header_Memory o1) n = slice o1 n hdr"

definition buffer_content :: "memory \<Rightarrow> byte list \<Rightarrow> const_buffer \<Rightarrow> byte list" where
  "buffer_content mem hdr b = ptr_bytes mem hdr (cb_data b) (cb_size b)"

text \<open>What the gathering send of the socket puts on the wire.\<close>

definition datagram_bytes :: "memory \<Rightarrow> DatagramDescription \<Rightarrow> byte list" where
  "datagram_bytes mem d = concat (map (buffer_content mem (header_buffer d)) (asio_buffer_list d))"

definition datagram_size :: "DatagramDescription \<Rightarrow> nat" where
  "datagram_size d = fold (\<lambda>b s. add_size s (cb_size b)) (asio_buffer_list d) 0"

section \<open>Message ids\<close>

text \<open>The generator: its three words are references in the source, so they are returned.\<close>

definition xorshf96 :: "u32 \<times> u32 \<times> u32 \<Rightarrow> u32 \<times> u32 \<times> u32 \<times> u32" where
  "xorshf96 = (\<lambda>(x, y, z).
     let x = x XOR push_bit 16 x;
         x = x XOR drop_bit 5 x;
         x = x XOR push_bit 1 x;
         t = x;
         x = y;
         y = z;
         z = t XOR x XOR y
     in (z, x, y, z))"

text \<open>
  The static words of \<^verbatim>\<open>create_fragmented_datagram_list\<close>: initialised by the first
  call (with the clock), kept from call to call under the mutex of the function.
\<close>

type_synonym id_state = "(u32 \<times> u32 \<times> u32) option"

definition next_message_id :: "int \<Rightarrow> id_state \<Rightarrow> u32 \<times> id_state" where
  "next_message_id clock ids =
     (let seed = (case ids of
            None \<Rightarrow> (of_int clock, 362436069, 521288629)
          | Some s \<Rightarrow> s);
          (message_id, s') = xorshf96 seed
      in (message_id, Some s'))"

section \<open>The builder\<close>

definition total_size_u32 :: "const_buffer list \<Rightarrow> u32" where
  "total_size_u32 bufs = fold (\<lambda>b s. s + of_nat (cb_size b)) bufs 0"

text \<open>The pointer to the header a datagram owns: the first of its buffers.\<close>

definition header_pointer :: "byte list \<Rightarrow> const_buffer" where
  "header_pointer hdr = \<lparr>cb_data = Header_Memory 0, cb_size = length hdr\<rparr>"

definition create_non_fragmented_datagram ::
    "host \<Rightarrow> const_buffer list \<Rightarrow> magic \<Rightarrow> DatagramDescription" where
  "create_non_fragmented_datagram h bufs m =
     (let total_size = total_size_u32 bufs;
          hdr = fill_header h m (type_value datagram_type_non_fragmented_message) (- 1) 1 total_size
      in \<lparr>header_buffer = hdr,
          asio_buffer_list =
            header_pointer hdr # map (\<lambda>b. \<lparr>cb_data = cb_data b, cb_size = cb_size b\<rparr>) bufs\<rparr>)"

text \<open>
  \<^verbatim>\<open>static_cast<int>(max_udp_datagram_size) - sizeof(Header)\<close> as an
  \<^verbatim>\<open>int\<close>: cut to 32 bits, extended to the 64 bits of the subtraction, cut again. It
  is used in unsigned arithmetic, so it is kept as an unsigned word.
\<close>

definition payload_bytes_per_datagram :: "nat \<Rightarrow> u32" where
  "payload_bytes_per_datagram max_size =
     ucast ((scast (of_nat max_size :: u32) :: u64) - of_nat sizeof_Header)"

definition needed_fragment_count :: "u32 \<Rightarrow> u32 \<Rightarrow> u32" where
  "needed_fragment_count total_size payload = (total_size + (payload - 1)) div payload"

definition fragment_info ::
    "host \<Rightarrow> magic \<Rightarrow> u32 \<Rightarrow> u32 \<Rightarrow> u32 \<Rightarrow> DatagramDescription" where
  "fragment_info h m message_id count total_size =
     (let hdr = fill_header h m (type_value datagram_type_fragmented_message_info)
            message_id count total_size
      in \<lparr>header_buffer = hdr, asio_buffer_list = [header_pointer hdr]\<rparr>)"

text \<open>A new fragment, whose number comes from the size of the list it is now part of.\<close>

definition new_fragment :: "host \<Rightarrow> magic \<Rightarrow> u32 \<Rightarrow> nat \<Rightarrow> DatagramDescription" where
  "new_fragment h m message_id list_size =
     (let hdr = fill_header h m (type_value datagram_type_fragment)
            message_id (of_nat (sub_size list_size 2)) 0
      in \<lparr>header_buffer = hdr, asio_buffer_list = [header_pointer hdr]\<rparr>)"

definition add_payload ::
    "host \<Rightarrow> const_buffer \<Rightarrow> nat \<Rightarrow> nat \<Rightarrow> DatagramDescription \<Rightarrow> DatagramDescription" where
  "add_payload h buf off n d =
     d\<lparr>asio_buffer_list :=
         asio_buffer_list d @ [\<lparr>cb_data = ptr_add (cb_data buf) off, cb_size = n\<rparr>],
       header_buffer := add_to_len h (of_nat n) (header_buffer d)\<rparr>"

text \<open>\<^verbatim>\<open>back()\<close> changed in place.\<close>

definition update_back :: "('a \<Rightarrow> 'a) \<Rightarrow> 'a list \<Rightarrow> 'a list" where
  "update_back f xs = butlast xs @ [f (last xs)]"

text \<open>
  The loop over the user's buffers. Its state: \<^verbatim>\<open>buffer_index\<close>,
  \<^verbatim>\<open>offset_in_current_buffer\<close> and the datagrams so far.
\<close>

type_synonym fragment_state = "nat \<times> nat \<times> DatagramList"

fun fragment_cond :: "const_buffer list \<Rightarrow> fragment_state \<Rightarrow> bool" where
  "fragment_cond bufs (i, off, dl) \<longleftrightarrow>
     i < length bufs \<or> (i = sub_size (length bufs) 1 \<and> off < cb_size (bufs ! i))"

text \<open>A new datagram, if the last one is full or only the fragmentation info is there.\<close>

definition open_datagram :: "host \<Rightarrow> magic \<Rightarrow> u32 \<Rightarrow> nat \<Rightarrow> DatagramList \<Rightarrow> DatagramList" where
  "open_datagram h m message_id max_size dl =
     (if length dl \<le> 1 \<or> datagram_size (last dl) \<ge> max_size
      then dl @ [new_fragment h m message_id (length dl + 1)] else dl)"

fun fragment_step ::
    "host \<Rightarrow> magic \<Rightarrow> u32 \<Rightarrow> const_buffer list \<Rightarrow> nat \<Rightarrow> fragment_state \<Rightarrow> fragment_state" where
  "fragment_step h m message_id bufs max_size (i, off, dl) =
     (let dl = open_datagram h m message_id max_size dl;
          n = min (sub_size max_size (datagram_size (last dl)))
                  (sub_size (cb_size (bufs ! i)) off);
          dl = update_back (add_payload h (bufs ! i) off n) dl;
          off = add_size off n
      in if off \<ge> cb_size (bufs ! i) then (i + 1, 0, dl) else (i, off, dl))"

partial_function (option) fragment_loop ::
    "host \<Rightarrow> magic \<Rightarrow> u32 \<Rightarrow> const_buffer list \<Rightarrow> nat \<Rightarrow> fragment_state \<Rightarrow> DatagramList option"
where
  "fragment_loop h m message_id bufs max_size st =
     (if fragment_cond bufs st
      then fragment_loop h m message_id bufs max_size (fragment_step h m message_id bufs max_size st)
      else Some (snd (snd st)))"

text \<open>\<open>None\<close> would be a call that does not return.\<close>

definition create_fragmented_datagram_list ::
    "host \<Rightarrow> const_buffer list \<Rightarrow> nat \<Rightarrow> magic \<Rightarrow> int \<Rightarrow> id_state \<Rightarrow>
     (fault + DatagramList \<times> id_state) option" where
  "create_fragmented_datagram_list h bufs max_size m clock ids =
     (let total_size = total_size_u32 bufs;
          payload = payload_bytes_per_datagram max_size
      in if payload = 0 then Some (Inl Division_By_Zero)
         else
           (let count = needed_fragment_count total_size payload;
                (message_id, ids') = next_message_id clock ids;
                info = fragment_info h m message_id count total_size
            in map_option (\<lambda>dl. Inr (dl, ids'))
                 (fragment_loop h m message_id bufs max_size (0, 0, [info]))))"

definition total_size_size_t :: "const_buffer list \<Rightarrow> nat" where
  "total_size_size_t bufs = fold (\<lambda>b s. add_size s (cb_size b)) bufs 0"

definition create_datagram_list ::
    "host \<Rightarrow> const_buffer list \<Rightarrow> nat \<Rightarrow> magic \<Rightarrow> int \<Rightarrow> id_state \<Rightarrow>
     (fault + DatagramList \<times> id_state) option" where
  "create_datagram_list h bufs max_size m clock ids =
     (if max_size \<le> sizeof_Header
      then Some (Inl (Invalid_Argument ''max_datagram_size is too small''))
      else
        (let bufs' = filter (\<lambda>b. cb_size b > 0) bufs;
             total_size = total_size_size_t bufs'
         in if add_size total_size sizeof_Header \<le> max_size
            then Some (Inr ([create_non_fragmented_datagram h bufs' m], ids))
            else create_fragmented_datagram_list h bufs' max_size m clock ids))"

section \<open>The generator never degenerates\<close>

text \<open>
  Each line of the generator is a linear map that can be undone; the three words are then
  permuted. The step on the three words is therefore injective.
\<close>

lemma push_bit_xor_u32: "push_bit n (a XOR b :: u32) = push_bit n a XOR push_bit n b"
  by (rule bit_word_eqI) (auto simp: bit_push_bit_iff bit_xor_iff)

lemma drop_bit_xor_u32: "drop_bit n (a XOR b :: u32) = drop_bit n a XOR drop_bit n b"
  by (rule bit_word_eqI) (auto simp: bit_drop_bit_eq bit_xor_iff)

lemma xor_eq_0_u32: "a XOR b = (0 :: u32) \<longleftrightarrow> a = b"
  by (metis xor.assoc xor.right_neutral xor_self_eq)

text \<open>A map of this shape with a nilpotent shift has the kernel 0.\<close>

lemma xor_shift_zero:
  fixes x :: u32
  assumes "x XOR f x = 0" "\<And>a b. f (a XOR b) = f a XOR f b" "(f ^^ n) x = 0"
  shows "x = 0"
proof -
  from assms(1) have "f x = x" by (simp add: xor_eq_0_u32)
  then have "(f ^^ n) x = x" by (induction n) auto
  with assms(3) show ?thesis by simp
qed

lemma xor_shift_inject:
  fixes x y :: u32
  assumes "x XOR f x = y XOR f y" "\<And>a b. f (a XOR b) = f a XOR f b"
    and "\<And>z. (f ^^ n) z = 0"
  shows "x = y"
proof -
  have "(x XOR y) XOR f (x XOR y) = (x XOR f x) XOR (y XOR f y)"
    by (simp only: assms(2) ac_simps)
  with assms(1) have "(x XOR y) XOR f (x XOR y) = 0" by simp
  then have "x XOR y = 0" using assms(2,3) by (rule xor_shift_zero)
  then show ?thesis by (simp add: xor_eq_0_u32)
qed

lemma push_bit_iter: "(push_bit k ^^ n) (z :: u32) = push_bit (n * k) z"
  by (induction n) (simp_all add: push_bit_push_bit add.commute)

lemma drop_bit_iter: "(drop_bit k ^^ n) (z :: u32) = drop_bit (n * k) z"
  by (induction n) (simp_all add: drop_bit_drop_bit add.commute)

lemma push_bit_out: "32 \<le> k \<Longrightarrow> push_bit k (z :: u32) = 0"
  by (rule bit_word_eqI) (auto simp: bit_push_bit_iff)

lemma drop_bit_out: "32 \<le> k \<Longrightarrow> drop_bit k (z :: u32) = 0"
  by (rule bit_word_eqI) (auto simp: bit_drop_bit_eq dest: bit_imp_le_length)

lemma xor_push_inject: "0 < k \<Longrightarrow> x XOR push_bit k x = y XOR push_bit k y \<Longrightarrow> x = (y :: u32)"
  by (rule xor_shift_inject [where f = "push_bit k" and n = 32])
    (auto simp: push_bit_xor_u32 push_bit_iter push_bit_out)

lemma xor_drop_inject: "0 < k \<Longrightarrow> x XOR drop_bit k x = y XOR drop_bit k y \<Longrightarrow> x = (y :: u32)"
  by (rule xor_shift_inject [where f = "drop_bit k" and n = 32])
    (auto simp: drop_bit_xor_u32 drop_bit_iter drop_bit_out)

lemma xor_right_cancel: "a XOR c = b XOR c \<longleftrightarrow> a = (b :: u32)"
  by (metis xor.assoc xor.right_neutral xor_self_eq)

text \<open>The shifts of the generator, apart from the permutation of its words.\<close>

definition xorshf_mix :: "u32 \<Rightarrow> u32" where
  "xorshf_mix x =
     (let x = x XOR push_bit 16 x; x = x XOR drop_bit 5 x in x XOR push_bit 1 x)"

lemma xorshf96_mix:
  "xorshf96 (x, y, z) =
     (xorshf_mix x XOR y XOR z, y, z, xorshf_mix x XOR y XOR z)"
  by (simp only: xorshf96_def xorshf_mix_def Let_def prod.case)

lemma xorshf_mix_inject: "xorshf_mix x = xorshf_mix y \<Longrightarrow> x = y"
  unfolding xorshf_mix_def Let_def
  by (drule xor_push_inject [of 1, rotated], simp, drule xor_drop_inject [of 5, rotated], simp,
      drule xor_push_inject [of 16, rotated], simp)

text \<open>
  The id generator is a permutation of its states. Two different states never lead to the
  same state, so the generator loses no entropy; the all-zero state, on which it would get
  stuck, is only reached from itself.
\<close>

lemma xorshf96_inject:
  "(snd (xorshf96 s) = snd (xorshf96 s') \<longleftrightarrow> s = s') \<and>
   (snd (xorshf96 s) = (0, 0, 0) \<longleftrightarrow> s = (0, 0, 0))"
proof -
  have *: "s = s'" if e: "snd (xorshf96 s) = snd (xorshf96 s')" for s s'
  proof -
    obtain x y z x' y' z' where s: "s = (x, y, z)" "s' = (x', y', z')"
      by (metis prod_cases3)
    from e have "y = y'" "z = z'" "xorshf_mix x = xorshf_mix x'"
      by (auto simp: s xorshf96_mix xor_right_cancel)
    then show ?thesis using xorshf_mix_inject by (simp add: s)
  qed
  have "snd (xorshf96 (0, 0, 0)) = (0, 0, 0)"
    by (simp add: xorshf96_mix xorshf_mix_def)
  with * [of s "(0, 0, 0)"] * [of s s'] show ?thesis by auto
qed

section \<open>What the loop computes\<close>

text \<open>Buffers in the user's memory: the pointer and the size stay inside their block.\<close>

fun in_memory :: "memory \<Rightarrow> ptr \<Rightarrow> nat \<Rightarrow> bool" where
  "in_memory mem (User_Memory b o1) n \<longleftrightarrow> o1 + n \<le> length (mem b)"
| "in_memory mem (Header_Memory o1) n \<longleftrightarrow> False"

definition user_buffers :: "memory \<Rightarrow> const_buffer list \<Rightarrow> bool" where
  "user_buffers mem bufs \<longleftrightarrow> list_all (\<lambda>b. in_memory mem (cb_data b) (cb_size b)) bufs"

definition message_bytes :: "memory \<Rightarrow> const_buffer list \<Rightarrow> byte list" where
  "message_bytes mem bufs = concat (map (buffer_content mem []) bufs)"

lemma length_buffer_content [simp]:
  "in_memory mem (cb_data b) (cb_size b) \<Longrightarrow> length (buffer_content mem hdr b) = cb_size b"
  by (cases "cb_data b") (auto simp: buffer_content_def)

lemma user_buffer_content:
  "in_memory mem (cb_data b) (cb_size b) \<Longrightarrow> buffer_content mem hdr b = buffer_content mem [] b"
  by (cases "cb_data b") (auto simp: buffer_content_def)

lemma part_content:
  assumes "in_memory mem (cb_data b) (cb_size b)" "off + n \<le> cb_size b"
  shows "buffer_content mem hdr \<lparr>cb_data = ptr_add (cb_data b) off, cb_size = n\<rparr> =
      slice off n (buffer_content mem [] b)"
  using assms
  by (cases "cb_data b") (auto simp: buffer_content_def slice_slice add.commute)

lemma part_in_memory:
  "in_memory mem p k \<Longrightarrow> off + n \<le> k \<Longrightarrow> in_memory mem (ptr_add p off) n"
  by (cases p) auto

lemma length_message:
  "user_buffers mem bufs \<Longrightarrow> length (message_bytes mem bufs) = sum_list (map cb_size bufs)"
  by (induction bufs) (auto simp: message_bytes_def user_buffers_def)

text \<open>Chunks filled to the brim, except the last one.\<close>

definition packed :: "nat \<Rightarrow> 'a list list \<Rightarrow> bool" where
  "packed p cs \<longleftrightarrow>
     (\<forall>c \<in> set (butlast cs). length c = p) \<and> (cs \<noteq> [] \<longrightarrow> last cs \<noteq> [] \<and> length (last cs) \<le> p)"

lemma packed_chunks: "0 < p \<Longrightarrow> packed p cs \<Longrightarrow> chunks p (concat cs) = cs"
proof (induction cs)
  case (Cons c cs)
  show ?case
  proof (cases "cs = []")
    case True
    with Cons.prems show ?thesis by (simp add: packed_def chunks_step)
  next
    case False
    with Cons.prems have "length c = p" "packed p cs" by (auto simp: packed_def)
    with Cons show ?thesis by (simp add: chunks_append)
  qed
qed simp

text \<open>
  A datagram that is the fragment number \<open>i\<close> with payload \<open>c\<close>: its header, the pointer to
  it, and pointers into the user's memory that yield the payload.
\<close>

definition is_fragment ::
    "memory \<Rightarrow> magic \<Rightarrow> u32 \<Rightarrow> nat \<Rightarrow> byte list \<Rightarrow> DatagramDescription \<Rightarrow> bool" where
  "is_fragment mem m message_id i c d \<longleftrightarrow>
     header_buffer d =
       wire_header m (type_value datagram_type_fragment) message_id (of_nat i) (of_nat (length c)) \<and>
     (\<exists>bs. asio_buffer_list d = \<lparr>cb_data = Header_Memory 0, cb_size = sizeof_Header\<rparr> # bs \<and>
           user_buffers mem bs \<and> message_bytes mem bs = c)"

definition wire_fragment :: "magic \<Rightarrow> u32 \<Rightarrow> nat \<Rightarrow> byte list \<Rightarrow> byte list" where
  "wire_fragment m message_id i c =
     wire_header m (type_value datagram_type_fragment) message_id (of_nat i) (of_nat (length c)) @ c"

lemma user_buffers_content:
  "user_buffers mem bs \<Longrightarrow> concat (map (buffer_content mem hdr) bs) = message_bytes mem bs"
  by (induction bs) (auto simp: user_buffers_def message_bytes_def user_buffer_content [of _ _ hdr])

lemma is_fragment_bytes:
  "is_fragment mem m message_id i c d \<Longrightarrow> datagram_bytes mem d = wire_fragment m message_id i c"
  by (auto simp: is_fragment_def datagram_bytes_def wire_fragment_def user_buffers_content)
    (simp add: buffer_content_def)

lemma datagram_size_sum:
  "sum_list (map cb_size (asio_buffer_list d)) < size_t_bound \<Longrightarrow>
     datagram_size d = sum_list (map cb_size (asio_buffer_list d))"
  using fold_add_size [of 0 "map cb_size (asio_buffer_list d)"]
  by (simp add: datagram_size_def fold_map comp_def)

lemma is_fragment_size:
  "is_fragment mem m message_id i c d \<Longrightarrow> sizeof_Header + length c < size_t_bound \<Longrightarrow>
     datagram_size d = sizeof_Header + length c"
  by (auto simp: is_fragment_def datagram_size_sum length_message [symmetric])

lemma new_fragment_is_fragment:
  "2 \<le> k \<Longrightarrow> is_fragment mem m message_id (k - 2) [] (new_fragment h m message_id k)"
  by (simp add: new_fragment_def is_fragment_def Let_def fill_header_wire header_pointer_def
      user_buffers_def message_bytes_def)

lemma add_payload_is_fragment:
  assumes "is_fragment mem m message_id i c d" "in_memory mem (cb_data b) (cb_size b)"
    and "off + n \<le> cb_size b"
  shows "is_fragment mem m message_id i (c @ slice off n (buffer_content mem [] b)) (add_payload h b off n d)"
proof -
  have "length (slice off n (buffer_content mem [] b)) = n"
    using assms(2,3) by simp
  with assms show ?thesis
    by (auto simp: is_fragment_def add_payload_def add_to_len_wire user_buffers_def message_bytes_def
        part_content part_in_memory simp del: length_slice)
qed

text \<open>Chunks with room left in the last one.\<close>

definition open_last :: "nat \<Rightarrow> 'a list list \<Rightarrow> bool" where
  "open_last p cs \<longleftrightarrow> cs \<noteq> [] \<and> (\<forall>c \<in> set (butlast cs). length c = p) \<and> length (last cs) < p"

lemma open_last_intro:
  "packed p cs \<Longrightarrow> cs \<noteq> [] \<Longrightarrow> length (last cs) \<noteq> p \<Longrightarrow> open_last p cs"
  by (auto simp: packed_def open_last_def)

lemma open_last_snoc:
  "packed p cs \<Longrightarrow> (cs = [] \<or> length (last cs) = p) \<Longrightarrow> 0 < p \<Longrightarrow> open_last p (cs @ [[]])"
  by (cases cs rule: rev_cases) (auto simp: packed_def open_last_def butlast_append)

lemma packed_fill:
  "open_last p cs \<Longrightarrow> c \<noteq> [] \<Longrightarrow> length (last cs) + length c \<le> p \<Longrightarrow>
     packed p (butlast cs @ [last cs @ c])"
  by (auto simp: packed_def open_last_def)

text \<open>The datagrams after the fragmentation info, one for each chunk.\<close>

definition fragments ::
    "memory \<Rightarrow> magic \<Rightarrow> u32 \<Rightarrow> byte list list \<Rightarrow> DatagramList \<Rightarrow> bool" where
  "fragments mem m message_id cs ds \<longleftrightarrow>
     length ds = length cs \<and>
     (\<forall>k < length cs. is_fragment mem m message_id k (cs ! k) (ds ! k))"

lemma fragments_Nil [simp]: "fragments mem m message_id [] []"
  by (simp add: fragments_def)

lemma fragments_snoc:
  "fragments mem m message_id cs ds \<Longrightarrow> is_fragment mem m message_id (length ds) c d \<Longrightarrow>
     fragments mem m message_id (cs @ [c]) (ds @ [d])"
  by (auto simp: fragments_def nth_append less_Suc_eq)

lemma fragments_last:
  "fragments mem m message_id cs ds \<Longrightarrow> cs \<noteq> [] \<Longrightarrow>
     ds \<noteq> [] \<and> is_fragment mem m message_id (length cs - 1) (last cs) (last ds)"
  by (cases ds rule: rev_cases; cases cs rule: rev_cases) (auto simp: fragments_def nth_append)

lemma fragments_butlast:
  "fragments mem m message_id cs ds \<Longrightarrow> fragments mem m message_id (butlast cs) (butlast ds)"
  by (auto simp: fragments_def nth_butlast)

lemma fragments_bytes:
  "fragments mem m message_id cs ds \<Longrightarrow>
     map (datagram_bytes mem) ds = map (\<lambda>k. wire_fragment m message_id k (cs ! k)) [0..<length cs]"
  by (rule nth_equalityI) (auto simp: fragments_def is_fragment_bytes)

section \<open>The invariant of the loop\<close>

text \<open>The part of the message that has been turned into fragments.\<close>

definition consumed :: "memory \<Rightarrow> const_buffer list \<Rightarrow> nat \<Rightarrow> nat \<Rightarrow> byte list" where
  "consumed mem bufs i off =
     message_bytes mem (take i bufs) @
     (if i < length bufs then take off (buffer_content mem [] (bufs ! i)) else [])"

lemma consumed_add:
  "i < length bufs \<Longrightarrow>
     consumed mem bufs i (off + n) =
       consumed mem bufs i off @ slice off n (buffer_content mem [] (bufs ! i))"
  by (simp add: consumed_def take_add slice_def)

lemma consumed_next:
  assumes "i < length bufs" "in_memory mem (cb_data (bufs ! i)) (cb_size (bufs ! i))"
  shows "consumed mem bufs (i + 1) 0 = consumed mem bufs i (cb_size (bufs ! i))"
  using assms by (simp add: consumed_def take_Suc_conv_app_nth message_bytes_def)

lemma consumed_all: "consumed mem bufs (length bufs) 0 = message_bytes mem bufs"
  by (simp add: consumed_def)

definition loop_inv ::
    "memory \<Rightarrow> magic \<Rightarrow> u32 \<Rightarrow> const_buffer list \<Rightarrow> nat \<Rightarrow> DatagramDescription \<Rightarrow>
     fragment_state \<Rightarrow> bool" where
  "loop_inv mem m message_id bufs max_size info = (\<lambda>(i, off, dl).
     i \<le> length bufs \<and> (if i < length bufs then off < cb_size (bufs ! i) else off = 0) \<and>
     (\<exists>cs ds. dl = info # ds \<and> packed (max_size - sizeof_Header) cs \<and>
        concat cs = consumed mem bufs i off \<and> fragments mem m message_id cs ds))"

text \<open>The assumptions of the builder's contract.\<close>

definition builder_input :: "memory \<Rightarrow> const_buffer list \<Rightarrow> nat \<Rightarrow> bool" where
  "builder_input mem bufs max_size \<longleftrightarrow>
     sizeof_Header < max_size \<and> user_buffers mem bufs \<and>
     sum_list (map cb_size bufs) + (max_size - sizeof_Header) \<le> 2 ^ 32"

lemma chunk_sizes:
  assumes "builder_input mem bufs max_size" "packed (max_size - sizeof_Header) cs" "cs \<noteq> []"
  shows "sizeof_Header + length (last cs) < size_t_bound"
  using assms by (auto simp: builder_input_def packed_def layout size_t_bound_def)

lemma open_datagram_spec:
  assumes inp: "builder_input mem bufs max_size" and p: "packed (max_size - sizeof_Header) cs"
    and f: "fragments mem m message_id cs ds"
  obtains cs1 ds1 where "open_datagram h m message_id max_size (info # ds) = info # ds1"
    and "fragments mem m message_id cs1 ds1" and "open_last (max_size - sizeof_Header) cs1"
    and "concat cs1 = concat cs"
proof (cases "cs = [] \<or> length (last cs) = max_size - sizeof_Header")
  case True
  have p0: "0 < max_size - sizeof_Header" using inp by (simp add: builder_input_def)
  let ?d = "new_fragment h m message_id (length ds + 2)"
  have "is_fragment mem m message_id (length ds) [] ?d"
    using new_fragment_is_fragment [of "length ds + 2"] by simp
  with f have "fragments mem m message_id (cs @ [[]]) (ds @ [?d])" by (rule fragments_snoc)
  moreover have "ds = [] \<or> max_size \<le> datagram_size (last ds)"
  proof (cases "cs = []")
    case False
    with True p0 is_fragment_size [OF conjunct2 [OF fragments_last [OF f False]]
        chunk_sizes [OF inp p False]] show ?thesis by simp
  qed (use f in \<open>simp add: fragments_def\<close>)
  then have "open_datagram h m message_id max_size (info # ds) = info # ds @ [?d]"
    by (auto simp: open_datagram_def)
  ultimately show ?thesis
    using that open_last_snoc [OF p True p0] by simp
next
  case False
  then have ne: "cs \<noteq> []" and o: "open_last (max_size - sizeof_Header) cs"
    using open_last_intro [OF p] by auto
  note l = fragments_last [OF f ne]
  from is_fragment_size [OF conjunct2 [OF l] chunk_sizes [OF inp p ne]] o
  have "datagram_size (last ds) < max_size" by (auto simp: open_last_def)
  with l have "open_datagram h m message_id max_size (info # ds) = info # ds"
    by (cases ds) (auto simp: open_datagram_def)
  with that f o show ?thesis by blast
qed

lemma fragment_step_inv:
  assumes inp: "builder_input mem bufs max_size" and inv: "loop_inv mem m message_id bufs max_size info (i, off, dl)"
    and i: "i < length bufs" and nz: "\<forall>b \<in> set bufs. 0 < cb_size b"
    and st: "fragment_step h m message_id bufs max_size (i, off, dl) = (i', off', dl')"
  shows "loop_inv mem m message_id bufs max_size info (i', off', dl')"
    and "length (consumed mem bufs i off) < length (consumed mem bufs i' off')"
proof -
  let ?p = "max_size - sizeof_Header" and ?b = "bufs ! i" and ?w = "buffer_content mem [] (bufs ! i)"
  from inv i obtain cs ds where off: "off < cb_size ?b" and dl: "dl = info # ds"
    and pk: "packed ?p cs" and cc: "concat cs = consumed mem bufs i off"
    and fr: "fragments mem m message_id cs ds"
    by (auto simp: loop_inv_def)
  obtain cs1 ds1 where od: "open_datagram h m message_id max_size dl = info # ds1"
    and f1: "fragments mem m message_id cs1 ds1" and o1: "open_last ?p cs1"
    and c1: "concat cs1 = consumed mem bufs i off"
    using open_datagram_spec [OF inp pk fr] cc dl by metis
  have ne: "cs1 \<noteq> []" using o1 by (simp add: open_last_def)
  note l1 = fragments_last [OF f1 ne]
  from inp i have mem_i: "in_memory mem (cb_data ?b) (cb_size ?b)"
    by (auto simp: builder_input_def user_buffers_def list_all_iff)
  have small: "cb_size ?b \<le> 2 ^ 32" "?p \<le> 2 ^ 32"
    using inp i member_le_sum_list [of "cb_size ?b" "map cb_size bufs"]
    by (auto simp: builder_input_def)
  with o1 have "sizeof_Header + length (last cs1) < size_t_bound"
    by (auto simp: open_last_def layout size_t_bound_def)
  with l1 have sz: "datagram_size (last (info # ds1)) = sizeof_Header + length (last cs1)"
    using is_fragment_size by fastforce
  define n where "n = min (?p - length (last cs1)) (cb_size ?b - off)"
  have n: "0 < n" "off + n \<le> cb_size ?b" "length (last cs1) + n \<le> ?p"
    using o1 off by (auto simp: n_def open_last_def)
  let ?piece = "slice off n ?w"
  let ?ds2 = "butlast ds1 @ [add_payload h ?b off n (last ds1)]"
  let ?cs2 = "butlast cs1 @ [last cs1 @ ?piece]"
  have piece: "length ?piece = n" using n mem_i by simp
  then have piece_ne: "?piece \<noteq> []" using n(1) by (metis length_0_conv less_not_refl)
  have ub: "update_back (add_payload h ?b off n) (info # ds1) = info # ?ds2"
    using l1 by (auto simp: update_back_def)
  have mn: "min (sub_size max_size (datagram_size (last (info # ds1)))) (sub_size (cb_size ?b) off) = n"
    using sz n off o1 by (simp add: n_def open_last_def)
  have ad: "add_size off n = off + n" using n small by (simp add: size_t_bound_def)
  have st': "(i', off', dl') =
      (if cb_size ?b \<le> off + n then (i + 1, 0, info # ?ds2) else (i, off + n, info # ?ds2))"
    unfolding st [symmetric] by (simp only: fragment_step.simps Let_def od mn ub ad)
  have "fragments mem m message_id ?cs2 ?ds2"
    using fragments_snoc [OF fragments_butlast [OF f1]] add_payload_is_fragment [OF conjunct2 [OF l1] mem_i n(2)]
      f1 by (simp add: fragments_def)
  moreover have "packed ?p ?cs2" using o1 piece_ne piece n(3) by (intro packed_fill) simp_all
  moreover have con: "concat ?cs2 = consumed mem bufs i (off + n)"
    using ne c1 by (simp add: consumed_add [OF i])
      (metis append_butlast_last_id concat_append append.assoc concat.simps append_Nil2)
  moreover have fin: "consumed mem bufs i (off + n) = consumed mem bufs (i + 1) 0" if "cb_size ?b \<le> off + n"
    using that n(2) consumed_next [OF i mem_i] by simp
  ultimately show "loop_inv mem m message_id bufs max_size info (i', off', dl')"
    using st' i nz unfolding loop_inv_def by (auto split: if_splits)
  have "length (consumed mem bufs i off) < length (consumed mem bufs i (off + n))"
    using n(1) piece by (simp only: consumed_add [OF i] length_append)
  then show "length (consumed mem bufs i off) < length (consumed mem bufs i' off')"
    using st' fin by (auto split: if_splits)
qed

lemma fragment_cond_iff:
  "loop_inv mem m message_id bufs max_size info (i, off, dl) \<Longrightarrow> length bufs < size_t_bound \<Longrightarrow>
     fragment_cond bufs (i, off, dl) \<longleftrightarrow> i < length bufs"
  by (auto simp: loop_inv_def sub_size_def size_t_bound_def split: if_splits)

lemma consumed_bound:
  "user_buffers mem bufs \<Longrightarrow> loop_inv mem m message_id bufs max_size info (i, off, dl) \<Longrightarrow>
     length (consumed mem bufs i off) \<le> length (message_bytes mem bufs)"
proof -
  assume u: "user_buffers mem bufs" and inv: "loop_inv mem m message_id bufs max_size info (i, off, dl)"
  show ?thesis
  proof (cases "i < length bufs")
    case True
    have "message_bytes mem bufs = message_bytes mem (take i bufs) @
        buffer_content mem [] (bufs ! i) @ message_bytes mem (drop (Suc i) bufs)"
      using id_take_nth_drop [OF True] by (simp add: message_bytes_def) (metis append.assoc concat.simps(2) concat_append list.simps(9) map_append)
    then show ?thesis using True by (simp add: consumed_def)
  next
    case False
    with inv show ?thesis by (auto simp: loop_inv_def consumed_def split: if_splits)
  qed
qed

lemma fragment_loop_spec:
  assumes inp: "builder_input mem bufs max_size" and nz: "\<forall>b \<in> set bufs. 0 < cb_size b"
    and len: "length bufs < size_t_bound"
    and inv: "loop_inv mem m message_id bufs max_size info st"
  shows "\<exists>ds. fragment_loop h m message_id bufs max_size st = Some (info # ds) \<and>
      fragments mem m message_id (chunks (max_size - sizeof_Header) (message_bytes mem bufs)) ds"
  using inv
proof (induction "length (message_bytes mem bufs) - length (consumed mem bufs (fst st) (fst (snd st)))"
    arbitrary: st rule: less_induct)
  case (less st)
  obtain i off dl where st: "st = (i, off, dl)" by (metis prod_cases3)
  note inv = less.prems [unfolded st]
  show ?case
  proof (cases "i < length bufs")
    case True
    obtain i' off' dl' where step: "fragment_step h m message_id bufs max_size st = (i', off', dl')"
      by (metis prod_cases3)
    note s = fragment_step_inv [OF inp inv True nz step [unfolded st]]
    have "user_buffers mem bufs" using inp by (simp add: builder_input_def)
    from consumed_bound [OF this s(1)] s(2) less.hyps [of "(i', off', dl')"] s(1)
    have "\<exists>ds. fragment_loop h m message_id bufs max_size (i', off', dl') = Some (info # ds) \<and>
        fragments mem m message_id (chunks (max_size - sizeof_Header) (message_bytes mem bufs)) ds"
      by (simp add: st)
    moreover have "fragment_loop h m message_id bufs max_size st =
        fragment_loop h m message_id bufs max_size (i', off', dl')"
      using fragment_cond_iff [OF inv len] True step
      by (subst fragment_loop.simps) (simp add: st del: fragment_cond.simps fragment_step.simps)
    ultimately show ?thesis by simp
  next
    case False
    with inv obtain cs ds where "i = length bufs" "off = 0" and dl: "dl = info # ds"
      and pk: "packed (max_size - sizeof_Header) cs"
      and cc: "concat cs = message_bytes mem bufs" and fr: "fragments mem m message_id cs ds"
      by (auto simp: loop_inv_def consumed_all)
    moreover have "0 < max_size - sizeof_Header" using inp by (simp add: builder_input_def)
    ultimately have "cs = chunks (max_size - sizeof_Header) (message_bytes mem bufs)"
      using packed_chunks by metis
    with fr dl show ?thesis
      using fragment_cond_iff [OF inv len] False
      by (subst fragment_loop.simps) (simp add: st del: fragment_cond.simps)
  qed
qed

section \<open>The datagrams of a message\<close>

lemma payload_eq: "payload_bytes_per_datagram n = of_nat n - 24"
proof -
  have "ucast ((scast x :: u64) - 24) = x - 24" for x :: u32
  proof -
    have "(scast x :: u64) - 24 = word_of_int (sint x - 24)" by (simp add: of_int_sint)
    moreover have "(ucast (word_of_int (sint x - 24) :: u64) :: u32) = word_of_int (sint x - 24)"
      by (rule ucast_down_wi) (simp add: is_down)
    ultimately show ?thesis by simp
  qed
  then show ?thesis by (simp add: payload_bytes_per_datagram_def layout)
qed

lemma payload_small:
  "sizeof_Header < n \<Longrightarrow> payload_bytes_per_datagram n = of_nat (n - sizeof_Header)"
  by (simp add: payload_eq layout of_nat_diff)

lemma total_size_u32_eq: "total_size_u32 bufs = of_nat (sum_list (map cb_size bufs))"
  using fold_add_u32 [of "map cb_size bufs" 0] by (simp add: total_size_u32_def fold_map comp_def)

lemma total_size_size_t_eq:
  "sum_list (map cb_size bufs) < size_t_bound \<Longrightarrow>
     total_size_size_t bufs = sum_list (map cb_size bufs)"
  using fold_add_size [of 0 "map cb_size bufs"] by (simp add: total_size_size_t_def fold_map comp_def)

text \<open>The number of fragments is the rounded-up quotient, as long as nothing wraps.\<close>

lemma of_nat_div_u32:
  "k < 2 ^ 32 \<Longrightarrow> p < 2 ^ 32 \<Longrightarrow> (of_nat k :: u32) div of_nat p = of_nat (k div p)"
  by (rule word_unat_eq_iff [THEN iffD2])
    (simp add: unat_div unat_of_nat_u32 le_less_trans [OF div_le_dividend])

lemma needed_fragment_count_exact:
  assumes "0 < n" "0 < p" "n + p \<le> 2 ^ 32"
  shows "needed_fragment_count (of_nat n) (of_nat p) = of_nat ((n + (p - 1)) div p)"
proof -
  have "(of_nat n :: u32) + (of_nat p - 1) = of_nat (n + (p - 1))"
    using assms(2) by (simp add: of_nat_diff)
  then show ?thesis
    using assms by (simp only: needed_fragment_count_def) (rule of_nat_div_u32, auto)
qed

text \<open>The protocol description: what a message looks like on the wire.\<close>

definition wire_info :: "magic \<Rightarrow> u32 \<Rightarrow> nat \<Rightarrow> nat \<Rightarrow> byte list" where
  "wire_info m message_id count n =
     wire_header m (type_value datagram_type_fragmented_message_info) message_id
       (of_nat count) (of_nat n)"

definition wire_non_fragmented :: "magic \<Rightarrow> byte list \<Rightarrow> byte list" where
  "wire_non_fragmented m msg =
     wire_header m (type_value datagram_type_non_fragmented_message) (- 1) 1 (of_nat (length msg)) @ msg"

definition wire_fragments :: "magic \<Rightarrow> u32 \<Rightarrow> byte list list \<Rightarrow> byte list list" where
  "wire_fragments m message_id cs =
     map (\<lambda>k. wire_fragment m message_id k (cs ! k)) [0..<length cs]"

definition wire_datagrams :: "magic \<Rightarrow> u32 \<Rightarrow> nat \<Rightarrow> byte list \<Rightarrow> byte list list" where
  "wire_datagrams m message_id max_size msg =
     (if length msg + sizeof_Header \<le> max_size then [wire_non_fragmented m msg]
      else
        (let cs = chunks (max_size - sizeof_Header) msg
         in wire_info m message_id (length cs) (length msg) # wire_fragments m message_id cs))"

lemma non_fragmented_bytes:
  assumes "user_buffers mem bufs"
  shows "datagram_bytes mem (create_non_fragmented_datagram h bufs m) =
      wire_non_fragmented m (message_bytes mem bufs)"
proof -
  have "(\<lambda>b. \<lparr>cb_data = cb_data b, cb_size = cb_size b\<rparr>) = (\<lambda>b::const_buffer. b)" by auto
  with assms show ?thesis
    by (simp add: create_non_fragmented_datagram_def datagram_bytes_def wire_non_fragmented_def
        fill_header_wire total_size_u32_eq length_message header_pointer_def user_buffers_content)
      (simp add: buffer_content_def)
qed

lemma info_bytes:
  "datagram_bytes mem (fragment_info h m message_id (of_nat count) (of_nat n)) =
     wire_info m message_id count n"
  by (simp add: fragment_info_def Let_def datagram_bytes_def buffer_content_def header_pointer_def
      fill_header_wire wire_info_def)

lemma sum_sizes_positive:
  "\<forall>b \<in> set bufs. 0 < cb_size b \<Longrightarrow> length bufs \<le> sum_list (map cb_size bufs)"
  by (induction bufs) auto

lemma create_fragmented_spec:
  assumes inp: "builder_input mem bufs max_size" and nz: "\<forall>b \<in> set bufs. 0 < cb_size b"
    and ne: "bufs \<noteq> []"
  obtains dl where "create_fragmented_datagram_list h bufs max_size m clock ids =
      Some (Inr (dl, snd (next_message_id clock ids)))"
    and "map (datagram_bytes mem) dl =
      (let cs = chunks (max_size - sizeof_Header) (message_bytes mem bufs); i = fst (next_message_id clock ids)
       in wire_info m i (length cs) (length (message_bytes mem bufs)) # wire_fragments m i cs)"
proof -
  let ?p = "max_size - sizeof_Header" and ?n = "sum_list (map cb_size bufs)"
  let ?i = "fst (next_message_id clock ids)" and ?msg = "message_bytes mem bufs"
  let ?cs = "chunks ?p ?msg"
  from inp have u: "user_buffers mem bufs" and p: "0 < ?p" "?n + ?p \<le> 2 ^ 32"
    by (auto simp: builder_input_def)
  have lm: "length ?msg = ?n" using u by (rule length_message)
  let ?info = "fragment_info h m ?i (of_nat (length ?cs)) (of_nat ?n)"
  have "loop_inv mem m ?i bufs max_size ?info (0, 0, [?info])"
    using nz by (auto simp: loop_inv_def consumed_def message_bytes_def packed_def intro!: exI [of _ "[]"])
  moreover have "length bufs < size_t_bound"
    using sum_sizes_positive [OF nz] p by (simp add: size_t_bound_def)
  ultimately obtain ds
    where ds: "fragment_loop h m ?i bufs max_size (0, 0, [?info]) = Some (?info # ds)"
      and fr: "fragments mem m ?i ?cs ds"
    using fragment_loop_spec [OF inp nz] by blast
  have n: "0 < ?n" using nz ne by (cases bufs) auto
  with p have "of_nat ?p \<noteq> (0 :: u32)" by (intro of_nat_u32_nonzero) auto
  moreover have "payload_bytes_per_datagram max_size = of_nat ?p"
    using inp by (intro payload_small) (simp add: builder_input_def)
  moreover have "needed_fragment_count (total_size_u32 bufs) (of_nat ?p) = of_nat (length ?cs)"
    using needed_fragment_count_exact [OF n p] p by (simp add: total_size_u32_eq length_chunks lm)
  ultimately have "create_fragmented_datagram_list h bufs max_size m clock ids =
      Some (Inr (?info # ds, snd (next_message_id clock ids)))"
    using ds by (simp add: create_fragmented_datagram_list_def total_size_u32_eq Let_def case_prod_unfold)
  moreover have "map (datagram_bytes mem) (?info # ds) =
      wire_info m ?i (length ?cs) (length ?msg) # wire_fragments m ?i ?cs"
    using fragments_bytes [OF fr] by (simp add: info_bytes wire_fragments_def lm)
  ultimately show ?thesis using that by (simp add: Let_def)
qed

lemma message_bytes_filter:
  assumes "user_buffers mem bufs"
  shows "user_buffers mem (filter (\<lambda>b. cb_size b > 0) bufs)"
    and "message_bytes mem (filter (\<lambda>b. cb_size b > 0) bufs) = message_bytes mem bufs"
    and "sum_list (map cb_size (filter (\<lambda>b. cb_size b > 0) bufs)) = sum_list (map cb_size bufs)"
proof -
  have "buffer_content mem [] b = []" if "in_memory mem (cb_data b) (cb_size b)" "cb_size b = 0" for b
    using that length_buffer_content [of mem b "[]"] by (metis length_0_conv)
  with assms show "user_buffers mem (filter (\<lambda>b. cb_size b > 0) bufs)"
    and "message_bytes mem (filter (\<lambda>b. cb_size b > 0) bufs) = message_bytes mem bufs"
    and "sum_list (map cb_size (filter (\<lambda>b. cb_size b > 0) bufs)) = sum_list (map cb_size bufs)"
    by (induction bufs) (auto simp: user_buffers_def message_bytes_def)
qed

lemma create_datagram_list_spec:
  assumes "builder_input mem bufs max_size"
  shows "\<exists>dl ids'. create_datagram_list h bufs max_size m clock ids = Some (Inr (dl, ids')) \<and>
    map (datagram_bytes mem) dl =
      wire_datagrams m (fst (next_message_id clock ids)) max_size (message_bytes mem bufs) \<and>
    ids' = (if length (message_bytes mem bufs) + sizeof_Header \<le> max_size then ids
            else snd (next_message_id clock ids))"
proof -
  let ?bufs = "filter (\<lambda>b. cb_size b > 0) bufs" and ?msg = "message_bytes mem bufs"
  from assms have u: "user_buffers mem bufs" by (simp add: builder_input_def)
  note f = message_bytes_filter [OF u]
  from assms f(1) have inp: "builder_input mem ?bufs max_size"
    unfolding builder_input_def f(3) by blast
  have len: "length ?msg = sum_list (map cb_size ?bufs)"
    using f length_message [OF u] by simp
  with inp have ts: "total_size_size_t ?bufs = length ?msg"
    by (simp add: builder_input_def total_size_size_t_eq size_t_bound_def)
  with inp len have ad: "add_size (total_size_size_t ?bufs) sizeof_Header = length ?msg + sizeof_Header"
    by (simp add: builder_input_def size_t_bound_def layout)
  have max: "\<not> max_size \<le> sizeof_Header" using assms by (simp add: builder_input_def)
  show ?thesis
  proof (cases "length ?msg + sizeof_Header \<le> max_size")
    case True
    then show ?thesis
      using max ad non_fragmented_bytes [OF f(1)] f(2)
      by (simp add: create_datagram_list_def wire_datagrams_def)
  next
    case False
    with max len have "?bufs \<noteq> []" by (cases "?bufs = []") auto
    from create_fragmented_spec [OF inp _ this, of h m clock ids] obtain dl where
      "create_fragmented_datagram_list h ?bufs max_size m clock ids =
        Some (Inr (dl, snd (next_message_id clock ids)))"
      and "map (datagram_bytes mem) dl =
        (let cs = chunks (max_size - sizeof_Header) ?msg; i = fst (next_message_id clock ids)
         in wire_info m i (length cs) (length ?msg) # wire_fragments m i cs)"
      using f(2) by auto
    with False max ad show ?thesis
      by (simp add: create_datagram_list_def wire_datagrams_def Let_def)
  qed
qed


text \<open>Two buffers, the first one empty and the message too long for one datagram of 30 bytes.\<close>

definition demo_memory :: memory where
  "demo_memory = (\<lambda>_. [1, 2, 3, 4, 5, 6, 7, 8, 9])"

definition demo_buffers :: "const_buffer list" where
  "demo_buffers =
     [\<lparr>cb_data = User_Memory 0 3, cb_size = 0\<rparr>, \<lparr>cb_data = User_Memory 0 1, cb_size = 8\<rparr>]"

lemma demo_input: "builder_input demo_memory demo_buffers 30"
  by (simp add: builder_input_def user_buffers_def demo_memory_def demo_buffers_def layout)

lemma demo_message: "message_bytes demo_memory demo_buffers = [2, 3, 4, 5, 6, 7, 8, 9]"
  by (simp add: message_bytes_def demo_memory_def demo_buffers_def buffer_content_def slice_def)


lemma length_wire_fragment [simp]: "length (wire_fragment m i k c) = sizeof_Header + length c"
  by (simp add: wire_fragment_def)

lemma wire_datagrams_max:
  "sizeof_Header < max_size \<Longrightarrow> d \<in> set (wire_datagrams m i max_size msg) \<Longrightarrow> length d \<le> max_size"
  by (auto simp: wire_datagrams_def wire_non_fragmented_def wire_info_def wire_fragments_def Let_def
      split: if_splits dest!: nth_mem [of _ "chunks _ _"] chunks_bounds)

text \<open>
  No datagram exceeds the maximum datagram size, and the payloads of the datagrams, in the
  order of the list, are the message.
\<close>

lemma create_datagram_list_bounds:
  assumes "builder_input mem bufs max_size"
    and "create_datagram_list h bufs max_size m clock ids = Some (Inr (dl, ids'))"
  shows "(\<forall>d \<in> set dl. length (datagram_bytes mem d) \<le> max_size) \<and>
    concat (map (\<lambda>d. drop sizeof_Header (datagram_bytes mem d)) dl) = message_bytes mem bufs"
proof -
  let ?i = "fst (next_message_id clock ids)" and ?msg = "message_bytes mem bufs"
  from create_datagram_list_spec [OF assms(1), of h m clock ids] assms(2)
  have w: "map (datagram_bytes mem) dl = wire_datagrams m ?i max_size ?msg" by auto
  from assms(1) have max: "sizeof_Header < max_size" by (simp add: builder_input_def)
  have "concat (map (drop sizeof_Header) (wire_datagrams m ?i max_size ?msg)) = ?msg"
  proof -
    have "map (drop sizeof_Header) (wire_fragments m ?i cs) = cs" for cs
      by (rule nth_equalityI) (simp_all add: wire_fragments_def wire_fragment_def)
    with max show ?thesis
      by (simp add: wire_datagrams_def wire_non_fragmented_def wire_info_def Let_def)
  qed
  moreover have "length (datagram_bytes mem d) \<le> max_size" if "d \<in> set dl" for d
  proof (rule wire_datagrams_max [OF max])
    show "datagram_bytes mem d \<in> set (wire_datagrams m ?i max_size ?msg)"
      using that by (simp flip: w)
  qed
  ultimately show ?thesis by (simp flip: w add: comp_def)
qed

section \<open>The loop always ends\<close>

lemma add_size_bound: "add_size a b < size_t_bound"
  by (simp add: add_size_def size_t_bound_def)

lemma datagram_size_bound: "datagram_size d < size_t_bound"
proof -
  have *: "fold (\<lambda>b s. add_size s (cb_size b)) bs x < size_t_bound" if "x < size_t_bound" for bs x
    using that by (induction bs arbitrary: x) (auto simp: add_size_bound)
  show ?thesis unfolding datagram_size_def by (rule *) (simp add: size_t_bound_def)
qed

lemma open_datagram_size:
  assumes "max_size \<noteq> sizeof_Header"
  shows "datagram_size (last (open_datagram h m message_id max_size dl)) \<noteq> max_size"
proof -
  have "datagram_size (new_fragment h m message_id k) = sizeof_Header" for k
    by (simp add: datagram_size_def new_fragment_def Let_def fill_header_wire header_pointer_def
        add_size_def size_t_bound_def layout)
  with assms show ?thesis by (auto simp: open_datagram_def)
qed

text \<open>The bytes still to be sent, plus one for each buffer.\<close>

definition remaining :: "const_buffer list \<Rightarrow> nat \<Rightarrow> nat \<Rightarrow> nat" where
  "remaining bufs i off = sum_list (map (\<lambda>b. Suc (cb_size b)) (drop i bufs)) - off"

definition state_ok :: "const_buffer list \<Rightarrow> fragment_state \<Rightarrow> bool" where
  "state_ok bufs = (\<lambda>(i, off, dl).
     i \<le> length bufs \<and> (if i < length bufs then off \<le> cb_size (bufs ! i) else off = 0))"

lemma fragment_step_decreases:
  assumes max: "max_size \<noteq> sizeof_Header" and sz: "\<forall>b \<in> set bufs. cb_size b < size_t_bound"
    and ok: "state_ok bufs (i, off, dl)" and i: "i < length bufs"
    and st: "fragment_step h m message_id bufs max_size (i, off, dl) = (i', off', dl')"
  shows "state_ok bufs (i', off', dl')" and "remaining bufs i' off' < remaining bufs i off"
proof -
  let ?b = "bufs ! i" and ?dl = "open_datagram h m message_id max_size dl"
  define k where "k = sub_size max_size (datagram_size (last ?dl))"
  have k: "0 < k"
    unfolding k_def using open_datagram_size [OF max, of h m message_id dl]
    by (intro sub_size_pos datagram_size_bound) simp
  have off: "off \<le> cb_size ?b" using ok i by (simp add: state_ok_def)
  have "cb_size ?b < size_t_bound" using sz i by simp
  then have ad: "add_size off (min k (cb_size ?b - off)) = off + min k (cb_size ?b - off)"
    using off by simp
  then have ad': "\<not> cb_size ?b \<le> off + k \<Longrightarrow> add_size off k = off + k"
    by (simp add: min_absorb1)
  have st': "i' = (if cb_size ?b \<le> off + min k (cb_size ?b - off) then i + 1 else i)"
    "off' = (if cb_size ?b \<le> off + min k (cb_size ?b - off) then 0 else off + min k (cb_size ?b - off))"
    using st off by (auto simp: Let_def k_def [symmetric] ad ad' split: if_splits)
  have rem: "remaining bufs i off = Suc (cb_size ?b) - off + remaining bufs (i + 1) 0"
    using off i by (simp add: remaining_def Cons_nth_drop_Suc [symmetric])
  show "state_ok bufs (i', off', dl')"
    using st' i off by (auto simp: state_ok_def)
  show "remaining bufs i' off' < remaining bufs i off"
  proof (cases "cb_size ?b \<le> off + min k (cb_size ?b - off)")
    case True
    with st' off rem show ?thesis by simp
  next
    case False
    then have mk: "min k (cb_size ?b - off) = k" by (simp add: min_def split: if_splits)
    with False have "remaining bufs i (off + k) < remaining bufs i off"
      using k i by (auto simp: remaining_def Cons_nth_drop_Suc [symmetric])
    with False st' mk show ?thesis by simp
  qed
qed

lemma fragment_loop_returns:
  assumes "max_size \<noteq> sizeof_Header" "\<forall>b \<in> set bufs. cb_size b < size_t_bound"
    and "length bufs < size_t_bound" "state_ok bufs st"
  shows "fragment_loop h m message_id bufs max_size st \<noteq> None"
  using assms(4)
proof (induction "remaining bufs (fst st) (fst (snd st))" arbitrary: st rule: less_induct)
  case (less st)
  obtain i off dl where st: "st = (i, off, dl)" by (metis prod_cases3)
  have cond: "fragment_cond bufs st \<longleftrightarrow> i < length bufs"
    using less.prems assms(3) by (auto simp: st state_ok_def sub_size_def size_t_bound_def split: if_splits)
  show ?case
  proof (cases "i < length bufs")
    case True
    obtain i' off' dl' where s: "fragment_step h m message_id bufs max_size st = (i', off', dl')"
      by (metis prod_cases3)
    note d = fragment_step_decreases [OF assms(1,2) less.prems [unfolded st] True s [unfolded st]]
    from less.hyps [of "(i', off', dl')"] d show ?thesis
      using True cond s by (subst fragment_loop.simps) (simp add: st del: fragment_cond.simps fragment_step.simps)
  next
    case False
    with cond show ?thesis by (subst fragment_loop.simps) simp
  qed
qed

text \<open>
  C15: the builder always returns. Whatever the buffers (their sizes and number are values of
  \<^verbatim>\<open>size_t\<close>) and the maximum datagram size, even one no header fits into, the
  fragmentation loop ends; the division by zero for a payload of 0 bytes comes first.
\<close>

theorem create_datagram_list_returns:
  assumes "\<forall>b \<in> set bufs. cb_size b < size_t_bound" and "length bufs < size_t_bound"
  shows "create_fragmented_datagram_list h bufs max_size m clock ids \<noteq> None \<and>
    create_datagram_list h bufs max_size m clock ids \<noteq> None"
proof -
  have *: "create_fragmented_datagram_list h bs max_size m clock ids \<noteq> None"
    if "\<forall>b \<in> set bs. cb_size b < size_t_bound" "length bs < size_t_bound" for bs
  proof (cases "max_size = sizeof_Header")
    case True
    then show ?thesis by (simp add: create_fragmented_datagram_list_def payload_eq layout)
  next
    case False
    have "state_ok bs (0, 0, dl)" for dl by (simp add: state_ok_def)
    from fragment_loop_returns [OF False that this] show ?thesis
      by (simp add: create_fragmented_datagram_list_def Let_def case_prod_unfold)
  qed
  moreover have "length (filter (\<lambda>b. cb_size b > 0) bufs) < size_t_bound"
    using assms(2) by (rule le_less_trans [OF length_filter_le])
  ultimately show ?thesis
    using assms by (simp add: create_datagram_list_def Let_def)
qed

theorem create_datagram_list_returns_witness:
  "create_fragmented_datagram_list Little_Endian demo_buffers 24 (1, 2, 3, 4) 5 None \<noteq> None"
  using create_datagram_list_returns [of demo_buffers Little_Endian 24 "(1, 2, 3, 4)" 5 None]
  by (simp add: demo_buffers_def size_t_bound_def)

section \<open>Messages close to 4 GiB\<close>

text \<open>
  C39: the fragment count is wrong close to 4 GiB. When the message length and the payload of a
  datagram add up to more than \<open>2 ^ 32\<close>, although the length itself still fits the 32 bits of
  the header, the rounding up wraps around and the fragmentation info announces 0 fragments.
\<close>

theorem needed_fragment_count_wraps:
  assumes "n < 2 ^ 32" and "sizeof_Header < max_size" and "max_size < 2 ^ 31"
    and "2 ^ 32 < n + (max_size - sizeof_Header)"
  shows "needed_fragment_count (of_nat n) (payload_bytes_per_datagram max_size) = 0"
proof -
  let ?p = "max_size - sizeof_Header"
  let ?k = "n + (?p - 1) - 2 ^ 32"
  have "(of_nat n :: u32) + (of_nat ?p - 1) = of_nat (n + (?p - 1))"
    using assms(2) by (simp add: of_nat_diff)
  also have "n + (?p - 1) = ?k + 2 ^ 32" using assms(4) by simp
  also have "(of_nat (?k + 2 ^ 32) :: u32) = of_nat ?k" by simp
  finally have "needed_fragment_count (of_nat n) (payload_bytes_per_datagram max_size) =
      of_nat ?k div (of_nat ?p :: u32)"
    by (simp only: needed_fragment_count_def payload_small [OF assms(2)])
  also have "\<dots> = of_nat (?k div ?p)"
    using assms by (intro of_nat_div_u32) auto
  also have "?k div ?p = 0" using assms by simp
  finally show ?thesis by simp
qed

theorem needed_fragment_count_wraps_witness:
  "needed_fragment_count (of_nat (2 ^ 32 - 1)) (payload_bytes_per_datagram 1448) = 0 \<and>
   (2 ^ 32 - 1 + (1424 - 1)) div 1424 = (3016129 :: nat)"
  using needed_fragment_count_wraps [of "2 ^ 32 - 1" 1448] by (simp add: layout)

end
