(* ===== verification/Owning_Buffer.thy ===== *)
theory Owning_Buffer
  imports Prelude
begin

text \<open>
  \<^verbatim>\<open>OwningBuffer\<close> (src/ecaludp/include/ecaludp/owning_buffer.h): a pointer and a
  size, kept together with a \<^verbatim>\<open>shared_ptr\<close> to the memory the pointer points into. The
  owner is modelled by the bytes of that memory (nobody writes to it once the buffer exists),
  the pointer by its offset in it.
\<close>

record OwningBuffer =
  ob_data :: nat
  ob_size :: nat
  owning_container :: "byte list"

definition owning_buffer :: "nat \<Rightarrow> nat \<Rightarrow> byte list \<Rightarrow> OwningBuffer" where
  "owning_buffer data n container =
     \<lparr>ob_data = data, ob_size = n, owning_container = container\<rparr>"

definition buffer_data :: "OwningBuffer \<Rightarrow> nat" where
  "buffer_data b = ob_data b"

definition buffer_size :: "OwningBuffer \<Rightarrow> nat" where
  "buffer_size b = ob_size b"

text \<open>
  The bytes a reader of \<^verbatim>\<open>data()\<close> and \<^verbatim>\<open>size()\<close> gets, and whether they all
  lie inside the owned memory: the user of the constructor must see to that.
\<close>

definition buffer_bytes :: "OwningBuffer \<Rightarrow> byte list" where
  "buffer_bytes b = slice (buffer_data b) (buffer_size b) (owning_container b)"

definition valid_buffer :: "OwningBuffer \<Rightarrow> bool" where
  "valid_buffer b \<longleftrightarrow> buffer_data b + buffer_size b \<le> length (owning_container b)"

lemma length_buffer_bytes: "valid_buffer b \<Longrightarrow> length (buffer_bytes b) = buffer_size b"
  by (simp add: buffer_bytes_def valid_buffer_def)

lemma owning_buffer_simps [simp]:
  "buffer_data (owning_buffer d n c) = d"
  "buffer_size (owning_buffer d n c) = n"
  "owning_container (owning_buffer d n c) = c"
  by (simp_all add: owning_buffer_def buffer_data_def buffer_size_def)

lemma buffer_bytes_owning_buffer [simp]: "buffer_bytes (owning_buffer d n c) = slice d n c"
  by (simp add: buffer_bytes_def)

end
