(* ===== verification/Reassembly.thy ===== *)
theory Reassembly
  imports Header Error_Codes Owning_Buffer Raw_Memory
begin

text \<open>
  The receiving side of the protocol: the class \<^verbatim>\<open>v5::Reassembly\<close>
  (src/ecaludp/src/protocol/reassembly_v5.h and .cpp). Fragments are collected per sender and
  message id until the fragmentation info and the announced number of fragments are there.
  Every handler returns the buffer for the user (or the null pointer), the error object and
  the new map of unfinished packages; an access through a null pointer or outside a buffer is
  a fault. A received datagram is the list of the bytes of its \<^verbatim>\<open>RawMemory\<close>. The bytes
  a recycled buffer of the pool is found with are the parameter \<open>pool\<close>, the clock of
  \<^verbatim>\<open>last_access_\<close> is the parameter \<open>now\<close>; allocations succeed.
\<close>

section \<open>State\<close>

record fragmented_package_info =
  fragment_info_received :: bool
  total_fragments :: u32
  total_size_bytes :: u32
  received_fragments :: u32
  last_access :: int

type_synonym fragmented_package = "fragmented_package_info \<times> OwningBuffer option list"

text \<open>The map is keyed by the endpoint of the sender and the id of the message.\<close>

type_synonym 'ep fragmented_package_key = "'ep \<times> u32"

type_synonym 'ep fragmented_package_map = "('ep \<times> u32) \<rightharpoonup> fragmented_package"

type_synonym 'ep reassembly_result =
  "fault + OwningBuffer option \<times> Error \<times> 'ep fragmented_package_map"

definition empty_package :: fragmented_package where
  "empty_package =
     (\<lparr>fragment_info_received = False, total_fragments = 0, total_size_bytes = 0,
       received_fragments = 0, last_access = 0\<rparr>, [])"

section \<open>Complete packages\<close>

text \<open>The loop over the fragments that adds up their sizes.\<close>

fun cummulated_package_sizes :: "OwningBuffer option list \<Rightarrow> nat \<Rightarrow> fault + nat" where
  "cummulated_package_sizes [] n = Inr n"
| "cummulated_package_sizes (None # fs) n = Inl Null_Dereference"
| "cummulated_package_sizes (Some b # fs) n = cummulated_package_sizes fs (add_size n (buffer_size b))"

text \<open>The loop that copies them behind each other, from the position \<open>pos\<close> on.\<close>

fun copy_fragments :: "OwningBuffer option list \<Rightarrow> nat \<Rightarrow> byte list \<Rightarrow> fault + byte list" where
  "copy_fragments [] pos mem = Inr mem"
| "copy_fragments (None # fs) pos mem = Inl Null_Dereference"
| "copy_fragments (Some b # fs) pos mem =
     (if \<not> valid_buffer b then Inl Out_Of_Bounds_Read
      else if pos + buffer_size b > length mem then Inl Out_Of_Bounds_Write
      else copy_fragments fs (pos + buffer_size b) (overwrite pos (buffer_bytes b) mem))"

definition reassemble_package ::
    "(nat \<Rightarrow> byte) \<Rightarrow> fragmented_package \<Rightarrow> fault + OwningBuffer" where
  "reassemble_package pool pkg =
     (case copy_fragments (snd pkg) 0 (fresh_memory pool (unat (total_size_bytes (fst pkg)))) of
        Inl f \<Rightarrow> Inl f
      | Inr mem \<Rightarrow> Inr (owning_buffer 0 (unat (total_size_bytes (fst pkg))) mem))"

definition size_error :: "u32 \<Rightarrow> nat \<Rightarrow> Error" where
  "size_error expected n =
     make_error MALFORMED_REASSEMBLED_MESSAGE
       (''Size error. Should be '' @ to_string (unat expected) @
        '' bytes, but received '' @ to_string n @ ''bytes.'')"

text \<open>The iterator of the source is the key together with the package stored under it.\<close>

definition handle_fragmented_package_if_complete ::
    "(nat \<Rightarrow> byte) \<Rightarrow> 'ep fragmented_package_key \<Rightarrow> fragmented_package \<Rightarrow> Error \<Rightarrow>
     'ep fragmented_package_map \<Rightarrow> 'ep reassembly_result" where
  "handle_fragmented_package_if_complete pool key pkg error ps =
     (if \<not> fragment_info_received (fst pkg) \<or> \<not> received_fragments (fst pkg) = total_fragments (fst pkg)
      then Inr (None, assign_code OK error, ps)
      else
        (case cummulated_package_sizes (snd pkg) 0 of
           Inl f \<Rightarrow> Inl f
         | Inr n \<Rightarrow>
             if n \<noteq> unat (total_size_bytes (fst pkg))
             then Inr (None, size_error (total_size_bytes (fst pkg)) n, ps(key := None))
             else
               (case reassemble_package pool pkg of
                  Inl f \<Rightarrow> Inl f
                | Inr b \<Rightarrow> Inr (Some b, assign_code OK error, ps(key := None)))))"

section \<open>The handlers\<close>

definition handle_datagram_fragmented_message_info ::
    "host \<Rightarrow> (nat \<Rightarrow> byte) \<Rightarrow> int \<Rightarrow> byte list \<Rightarrow> 'ep \<Rightarrow> Error \<Rightarrow>
     'ep fragmented_package_map \<Rightarrow> 'ep reassembly_result" where
  "handle_datagram_fragmented_message_info h pool now buffer ep error ps =
     (let package_id = header_id h buffer;
          key = (ep, package_id);
          store = (\<lambda>(info, fragments).
            let info = info\<lparr>fragment_info_received := True\<rparr>;
                info = info\<lparr>total_fragments := header_num h buffer,
                            total_size_bytes := header_len h buffer\<rparr>;
                fragments = vector_resize None (unat (total_fragments info)) fragments;
                info = info\<lparr>last_access := now\<rparr>;
                pkg = (info, fragments)
            in handle_fragmented_package_if_complete pool key pkg error (ps(key \<mapsto> pkg)))
      in (case ps key of
            None \<Rightarrow> store empty_package
          | Some pkg \<Rightarrow>
              if fragment_info_received (fst pkg)
              then Inr (None,
                make_error DUPLICATE_DATAGRAM
                  (''Received fragment info for package '' @ to_string_int (sint package_id) @ '' twice''),
                ps)
              else store pkg))"

text \<open>
  \<^verbatim>\<open>static_cast<unsigned int>(buffer->size()) - sizeof(Header)\<close>, subtracted in 64 bits
  and stored in 32.
\<close>

definition bytes_available :: "nat \<Rightarrow> u32" where
  "bytes_available n = ucast ((ucast (of_nat n :: u32) :: u64) - of_nat sizeof_Header)"

definition faulty_size :: "string \<Rightarrow> u32 \<Rightarrow> u32 \<Rightarrow> Error" where
  "faulty_size what expected available =
     make_error MALFORMED_DATAGRAM
       (''Faulty size of '' @ what @ ''. Should be '' @ to_string (unat expected) @
        '', but only '' @ to_string (unat available) @ '' bytes availabe.'')"

definition handle_datagram_fragment ::
    "host \<Rightarrow> (nat \<Rightarrow> byte) \<Rightarrow> int \<Rightarrow> byte list \<Rightarrow> 'ep \<Rightarrow> Error \<Rightarrow>
     'ep fragmented_package_map \<Rightarrow> 'ep reassembly_result" where
  "handle_datagram_fragment h pool now buffer ep error ps =
     (let package_id = header_id h buffer;
          key = (ep, package_id);
          (info, fragments) = (case ps key of None \<Rightarrow> empty_package | Some pkg \<Rightarrow> pkg);
          package_num = header_num h buffer;
          fragments =
            (if \<not> fragment_info_received info
             then vector_resize None (max (length fragments) (unat (package_num + 1))) fragments
             else fragments);
          ps = ps(key \<mapsto> (info, fragments))
      in if package_num \<ge> of_nat (length fragments)
         then Inr (None,
           make_error MALFORMED_DATAGRAM
             (''Fragment number '' @ to_string (unat package_num) @
              '' is invalid. Should be smaller than '' @ to_string (length fragments)), ps)
         else if fragments ! unat package_num \<noteq> None
         then Inr (None,
           make_error DUPLICATE_DATAGRAM
             (''Fragment '' @ to_string (unat package_num) @
              '' for package '' @ to_string_int (sint package_id)), ps)
         else
           (let fragment_size = header_len h buffer;
                available = bytes_available (length buffer)
            in if fragment_size > available
               then Inr (None, faulty_size ''fragment'' fragment_size available, ps)
               else
                 (let view = owning_buffer sizeof_Header (unat fragment_size) buffer;
                      fragments = fragments[unat package_num := Some view];
                      info = info\<lparr>received_fragments := received_fragments info + 1\<rparr>;
                      info = info\<lparr>last_access := now\<rparr>;
                      pkg = (info, fragments)
                  in handle_fragmented_package_if_complete pool key pkg error (ps(key \<mapsto> pkg)))))"

definition handle_datagram_non_fragmented_message ::
    "host \<Rightarrow> byte list \<Rightarrow> Error \<Rightarrow> OwningBuffer option \<times> Error" where
  "handle_datagram_non_fragmented_message h buffer error =
     (let payload_size = header_len h buffer;
          available = bytes_available (length buffer)
      in if payload_size > available
         then (None, faulty_size ''datagram'' payload_size available)
         else (Some (owning_buffer sizeof_Header (unat payload_size) buffer), assign_code OK error))"

definition handle_datagram ::
    "host \<Rightarrow> (nat \<Rightarrow> byte) \<Rightarrow> int \<Rightarrow> byte list \<Rightarrow> 'ep \<Rightarrow> Error \<Rightarrow>
     'ep fragmented_package_map \<Rightarrow> 'ep reassembly_result" where
  "handle_datagram h pool now buffer ep error ps =
     (if length buffer < sizeof_Header
      then Inr (None,
        make_error MALFORMED_DATAGRAM
          (''Datagram too small, cannot contain V5 header. Size is '' @
           to_string (length buffer) @ '' bytes.''), ps)
      else if header_type h buffer = type_value datagram_type_fragmented_message_info
      then handle_datagram_fragmented_message_info h pool now buffer ep error ps
      else if header_type h buffer = type_value datagram_type_fragment
      then handle_datagram_fragment h pool now buffer ep error ps
      else if header_type h buffer = type_value datagram_type_non_fragmented_message
      then (case handle_datagram_non_fragmented_message h buffer error of
              (b, error) \<Rightarrow> Inr (b, error, ps))
      else Inr (None, make_error MALFORMED_DATAGRAM ''Invalid type'', ps))"

definition remove_old_packages ::
    "int \<Rightarrow> 'ep fragmented_package_map \<Rightarrow> 'ep fragmented_package_map" where
  "remove_old_packages max_age ps =
     (\<lambda>key. case ps key of
        None \<Rightarrow> None
      | Some pkg \<Rightarrow> if last_access (fst pkg) < max_age then None else Some pkg)"

section \<open>Reading a datagram\<close>

lemma bytes_available_eq:
  assumes "sizeof_Header \<le> n" "n < 2 ^ 32"
  shows "bytes_available n = of_nat (n - sizeof_Header)"
proof -
  have "(ucast (of_nat n :: u32) :: u64) = of_nat n"
    using assms(2) by (metis of_nat_unat unat_of_nat_u32)
  then have "bytes_available n = ucast ((of_nat (n - sizeof_Header)) :: u64)"
    using assms(1) by (simp add: bytes_available_def of_nat_diff)
  also have "\<dots> = of_nat (n - sizeof_Header)"
    using assms(2) by (simp add: unsigned_of_nat take_bit_nat_eq_self del: of_nat_diff)
  finally show ?thesis .
qed

lemma bytes_available_unat:
  "sizeof_Header \<le> n \<Longrightarrow> n < 2 ^ 32 \<Longrightarrow> unat (bytes_available n) = n - sizeof_Header"
  by (simp only: bytes_available_eq) (simp add: unat_of_nat_u32 del: of_nat_diff)

text \<open>The payload a header announces, if the datagram is long enough for it.\<close>

definition payload_of :: "host \<Rightarrow> byte list \<Rightarrow> byte list option" where
  "payload_of h buffer =
     (if header_len h buffer > bytes_available (length buffer) then None
      else Some (slice sizeof_Header (unat (header_len h buffer)) buffer))"

lemma payload_view:
  assumes "sizeof_Header \<le> length buffer" "length buffer < 2 ^ 32"
    and "\<not> header_len h buffer > bytes_available (length buffer)"
  shows "valid_buffer (owning_buffer sizeof_Header (unat (header_len h buffer)) buffer)"
    and "payload_of h buffer = Some (buffer_bytes (owning_buffer sizeof_Header (unat (header_len h buffer)) buffer))"
proof -
  have "unat (header_len h buffer) \<le> length buffer - sizeof_Header"
    using assms by (simp add: bytes_available_unat not_less word_le_nat_alt)
  with assms(1) show "valid_buffer (owning_buffer sizeof_Header (unat (header_len h buffer)) buffer)"
    by (simp add: valid_buffer_def)
qed (use assms(3) in \<open>simp add: payload_of_def\<close>)

section \<open>Lists of fragments\<close>

definition received_count :: "OwningBuffer option list \<Rightarrow> nat" where
  "received_count fs = length (filter (\<lambda>f. f \<noteq> None) fs)"

lemma received_count_simps [simp]:
  "received_count [] = 0"
  "received_count (f # fs) = (if f = None then received_count fs else Suc (received_count fs))"
  "received_count (fs @ gs) = received_count fs + received_count gs"
  "received_count (replicate n None) = 0"
  by (simp_all add: received_count_def)

lemma received_count_le: "received_count fs \<le> length fs"
  by (simp add: received_count_def)

lemma received_count_full:
  "received_count fs = length fs \<longleftrightarrow> None \<notin> set fs"
  unfolding received_count_def using length_filter_less [of None fs "\<lambda>f. f \<noteq> None"]
  by (metis (mono_tags, lifting) filter_True nat_neq_iff)

lemma received_count_zero: "received_count fs = 0 \<longleftrightarrow> set fs \<subseteq> {None}"
  by (auto simp: received_count_def filter_empty_conv)

lemma received_count_update:
  "i < length fs \<Longrightarrow> fs ! i = None \<Longrightarrow> received_count (fs[i := Some b]) = Suc (received_count fs)"
  by (subst (2) id_take_nth_drop [of i fs], simp) (simp add: upd_conv_take_nth_drop)

lemma received_count_resize:
  "received_count (vector_resize None n fs) = received_count (take n fs)"
  by (simp add: vector_resize_def)

lemma received_count_drop:
  "received_count fs = received_count (take n fs) + received_count (drop n fs)"
  by (metis append_take_drop_id received_count_simps(3))

lemma full_fragments: "None \<notin> set fs \<Longrightarrow> fs = map Some (map the fs)"
  by (induction fs) auto

lemma cummulated_null: "None \<in> set fs \<Longrightarrow> cummulated_package_sizes fs n = Inl Null_Dereference"
  by (induction fs n rule: cummulated_package_sizes.induct) auto

lemma cummulated_sum:
  "n + sum_list (map buffer_size bs) < size_t_bound \<Longrightarrow>
     cummulated_package_sizes (map Some bs) n = Inr (n + sum_list (map buffer_size bs))"
  by (induction bs arbitrary: n) auto

lemma copy_fragments_concat:
  "(\<And>b. b \<in> set bs \<Longrightarrow> valid_buffer b) \<Longrightarrow> pos + sum_list (map buffer_size bs) \<le> length mem \<Longrightarrow>
   copy_fragments (map Some bs) pos mem =
     Inr (take pos mem @ concat (map buffer_bytes bs) @ drop (pos + sum_list (map buffer_size bs)) mem)"
proof (induction bs arbitrary: pos mem)
  case (Cons b bs)
  have lb: "length (buffer_bytes b) = buffer_size b"
    using Cons.prems(1) by (simp add: length_buffer_bytes)
  let ?m = "overwrite pos (buffer_bytes b) mem"
  have le: "pos + buffer_size b \<le> length mem" using Cons.prems(2) by simp
  have "copy_fragments (map Some bs) (pos + buffer_size b) ?m =
      Inr (take (pos + buffer_size b) ?m @ concat (map buffer_bytes bs) @
        drop (pos + buffer_size b + sum_list (map buffer_size bs)) ?m)"
    using Cons.prems le lb by (intro Cons.IH) auto
  also have "take (pos + buffer_size b) ?m = take pos mem @ buffer_bytes b"
    using le lb by (simp add: overwrite_def)
  also have "drop (pos + buffer_size b + sum_list (map buffer_size bs)) ?m =
      drop (pos + buffer_size b + sum_list (map buffer_size bs)) mem"
    using le lb by (simp add: overwrite_def add.commute [of "sum_list _" "_ + _"])
  finally have "copy_fragments (map Some (b # bs)) pos mem =
      Inr ((take pos mem @ buffer_bytes b) @ concat (map buffer_bytes bs) @
        drop (pos + buffer_size b + sum_list (map buffer_size bs)) mem)"
    using Cons.prems le by simp
  then show ?case by (simp only: list.map concat.simps sum_list.Cons append.assoc add.assoc)
qed simp

end
