(* ===== verification/Reassembly_Spec.thy ===== *)
theory Reassembly_Spec
  imports Reassembly
begin

text \<open>
  What the reassembly promises: an abstract receiver that keeps, for each sender and message
  id, the announced fragment count and length and a map from fragment numbers to payloads,
  and the proof that the handlers of \<open>Reassembly\<close> implement it, as long as no
  fragmentation info announces fewer fragments than already received.
\<close>

section \<open>The abstract receiver\<close>

datatype parsed =
    Too_Small
  | Info u32 nat nat
  | Fragment u32 nat "byte list option"
  | Whole "byte list option"
  | Unknown_Type

definition parse :: "host \<Rightarrow> byte list \<Rightarrow> parsed" where
  "parse h buffer =
     (if length buffer < sizeof_Header then Too_Small
      else if header_type h buffer = 1
      then Info (header_id h buffer) (unat (header_num h buffer)) (unat (header_len h buffer))
      else if header_type h buffer = 2
      then Fragment (header_id h buffer) (unat (header_num h buffer)) (payload_of h buffer)
      else if header_type h buffer = 3 then Whole (payload_of h buffer)
      else Unknown_Type)"

text \<open>An unfinished message: the announced count and length, and the payloads so far.\<close>

type_synonym partial_message = "(nat \<times> nat) option \<times> (nat \<rightharpoonup> byte list)"

type_synonym 'ep partials = "'ep \<times> u32 \<Rightarrow> partial_message"

type_synonym verdict = "byte list option \<times> ErrorCode"

definition nothing :: partial_message where
  "nothing = (None, Map.empty)"

fun check_complete :: "partial_message \<Rightarrow> verdict \<times> partial_message" where
  "check_complete (None, m) = ((None, OK), (None, m))"
| "check_complete (Some (n, len), m) =
     (if list_all (\<lambda>i. m i \<noteq> None) [0..<n] then
        (let msg = concat (map (\<lambda>i. the (m i)) [0..<n])
         in (if length msg = len then (Some msg, OK) else (None, MALFORMED_REASSEMBLED_MESSAGE),
             nothing))
      else ((None, OK), (Some (n, len), m)))"

fun fragment_limit :: "(nat \<times> nat) option \<Rightarrow> nat" where
  "fragment_limit None = 2 ^ 32 - 1"
| "fragment_limit (Some (n, len)) = n"

fun spec_info :: "nat \<Rightarrow> nat \<Rightarrow> partial_message \<Rightarrow> verdict \<times> partial_message" where
  "spec_info n len (i, m) =
     (if i \<noteq> None then ((None, DUPLICATE_DATAGRAM), (i, m)) else check_complete (Some (n, len), m))"

fun spec_fragment ::
    "nat \<Rightarrow> byte list option \<Rightarrow> partial_message \<Rightarrow> verdict \<times> partial_message" where
  "spec_fragment num payload (i, m) =
     (if num \<ge> fragment_limit i then ((None, MALFORMED_DATAGRAM), (i, m))
      else if m num \<noteq> None then ((None, DUPLICATE_DATAGRAM), (i, m))
      else (case payload of
              None \<Rightarrow> ((None, MALFORMED_DATAGRAM), (i, m))
            | Some p \<Rightarrow> check_complete (i, m(num \<mapsto> p))))"

definition at_key ::
    "'k \<Rightarrow> ('p \<Rightarrow> 'v \<times> 'p) \<Rightarrow> ('k \<Rightarrow> 'p) \<Rightarrow> 'v \<times> ('k \<Rightarrow> 'p)" where
  "at_key k f st = (case f (st k) of (v, p) \<Rightarrow> (v, st(k := p)))"

fun spec_receive :: "'ep \<Rightarrow> parsed \<Rightarrow> 'ep partials \<Rightarrow> verdict \<times> 'ep partials" where
  "spec_receive ep Too_Small st = ((None, MALFORMED_DATAGRAM), st)"
| "spec_receive ep (Info i n len) st = at_key (ep, i) (spec_info n len) st"
| "spec_receive ep (Fragment i num p) st = at_key (ep, i) (spec_fragment num p) st"
| "spec_receive ep (Whole None) st = ((None, MALFORMED_DATAGRAM), st)"
| "spec_receive ep (Whole (Some p)) st = ((Some p, OK), st)"
| "spec_receive ep Unknown_Type st = ((None, MALFORMED_DATAGRAM), st)"

section \<open>Abstraction and invariant\<close>

fun abs_package :: "fragmented_package \<Rightarrow> partial_message" where
  "abs_package (info, fs) =
     (if fragment_info_received info
      then Some (unat (total_fragments info), unat (total_size_bytes info)) else None,
      \<lambda>i. if i < length fs then map_option buffer_bytes (fs ! i) else None)"

definition abs_map :: "'ep fragmented_package_map \<Rightarrow> 'ep partials" where
  "abs_map ps = (\<lambda>key. case ps key of None \<Rightarrow> nothing | Some pkg \<Rightarrow> abs_package pkg)"

text \<open>
  The counter agrees with the fragments stored, there are as many slots as the info
  announced, and every stored fragment lies inside its datagram.
\<close>

definition consistent :: "fragmented_package \<Rightarrow> bool" where
  "consistent pkg \<longleftrightarrow>
     received_fragments (fst pkg) = of_nat (received_count (snd pkg)) \<and>
     length (snd pkg) < 2 ^ 32 \<and>
     (fragment_info_received (fst pkg) \<longrightarrow> length (snd pkg) = unat (total_fragments (fst pkg))) \<and>
     (\<forall>b. Some b \<in> set (snd pkg) \<longrightarrow> valid_buffer b \<and> buffer_size b < 2 ^ 32)"

definition all_consistent :: "'ep fragmented_package_map \<Rightarrow> bool" where
  "all_consistent ps \<longleftrightarrow> (\<forall>key pkg. ps key = Some pkg \<longrightarrow> consistent pkg)"

text \<open>An info that announces fewer fragments than the number of one already received.\<close>

definition truncating :: "host \<Rightarrow> byte list \<Rightarrow> 'ep \<Rightarrow> 'ep fragmented_package_map \<Rightarrow> bool" where
  "truncating h buffer ep ps \<longleftrightarrow>
     sizeof_Header \<le> length buffer \<and> header_type h buffer = 1 \<and>
     (case ps (ep, header_id h buffer) of
        None \<Rightarrow> False
      | Some pkg \<Rightarrow> \<not> fragment_info_received (fst pkg) \<and>
          list_ex (\<lambda>f. f \<noteq> None) (drop (unat (header_num h buffer)) (snd pkg)))"

definition implements :: "'ep reassembly_result \<Rightarrow> verdict \<times> 'ep partials \<Rightarrow> bool" where
  "implements res out \<longleftrightarrow>
     (\<exists>b err ps. res = Inr (b, err, ps) \<and> fst out = (map_option buffer_bytes b, err_code err) \<and>
        snd out = abs_map ps \<and> all_consistent ps \<and> pred_option valid_buffer b)"

lemma implementsI [intro]:
  "fst out = (map_option buffer_bytes b, err_code err) \<Longrightarrow> snd out = abs_map ps \<Longrightarrow>
   all_consistent ps \<Longrightarrow> pred_option valid_buffer b \<Longrightarrow> implements (Inr (b, err, ps)) out"
  by (auto simp: implements_def)

lemma abs_map_update: "abs_map (ps(key \<mapsto> pkg)) = (abs_map ps)(key := abs_package pkg)"
  by (auto simp: abs_map_def)

lemma abs_map_remove: "abs_map (ps(key := None)) = (abs_map ps)(key := nothing)"
  by (auto simp: abs_map_def)

lemma abs_empty_package: "abs_package empty_package = nothing"
  by (simp add: empty_package_def nothing_def)

lemma consistent_empty: "consistent empty_package"
  by (simp add: empty_package_def consistent_def)

lemma all_consistent_update:
  "all_consistent ps \<Longrightarrow> consistent pkg \<Longrightarrow> all_consistent (ps(key \<mapsto> pkg))"
  by (auto simp: all_consistent_def)

lemma all_consistent_remove: "all_consistent ps \<Longrightarrow> all_consistent (ps(key := None))"
  by (auto simp: all_consistent_def)

lemma all_consistent_empty: "all_consistent Map.empty"
  by (simp add: all_consistent_def)

lemma at_key_unchanged: "f (st k) = (v, st k) \<Longrightarrow> at_key k f st = (v, st)"
  by (simp add: at_key_def)

section \<open>Refinement\<close>

lemma sizes_bound:
  assumes "length bs < 2 ^ 32" "\<And>b. b \<in> set bs \<Longrightarrow> buffer_size b < 2 ^ 32"
  shows "sum_list (map buffer_size bs) < size_t_bound"
proof -
  have "sum_list (map buffer_size bs) \<le> length bs * 2 ^ 32"
    using assms(2) by (induction bs) (force intro: add_mono)+
  also have "\<dots> < size_t_bound" using assms(1) by (simp add: size_t_bound_def)
  finally show ?thesis .
qed

lemma nth_None_iff: "None \<notin> set fs \<longleftrightarrow> list_all (\<lambda>i. fs ! i \<noteq> None) [0..<length fs]"
  by (auto simp: list_all_iff in_set_conv_nth)

lemma fresh_memory_length [simp]: "length (fresh_memory g n) = n"
  by (simp add: fresh_memory_def)

text \<open>All announced fragments are there: what the two loops compute.\<close>

lemma reassemble_full:
  assumes fs: "snd pkg = map Some bs" and v: "\<And>b. b \<in> set bs \<Longrightarrow> valid_buffer b"
    and sum: "sum_list (map buffer_size bs) = unat (total_size_bytes (fst pkg))"
  shows "reassemble_package pool pkg =
    Inr (owning_buffer 0 (unat (total_size_bytes (fst pkg))) (concat (map buffer_bytes bs)))"
  using copy_fragments_concat [of bs 0 "fresh_memory pool (unat (total_size_bytes (fst pkg)))"] v sum
  by (simp add: reassemble_package_def fs)

lemma length_concat_buffers:
  "(\<And>b. b \<in> set bs \<Longrightarrow> valid_buffer b) \<Longrightarrow>
     length (concat (map buffer_bytes bs)) = sum_list (map buffer_size bs)"
  by (induction bs) (auto simp: length_buffer_bytes)

lemma if_complete_implements:
  assumes c: "consistent pkg" and all: "all_consistent ps"
  shows "implements (handle_fragmented_package_if_complete pool key pkg err (ps(key \<mapsto> pkg)))
    (case check_complete (abs_package pkg) of (v, p) \<Rightarrow> (v, (abs_map ps)(key := p)))"
proof -
  obtain info fs where pkg: "pkg = (info, fs)" by (cases pkg)
  let ?n = "unat (total_fragments info)" and ?len = "unat (total_size_bytes info)"
  note ok = all_consistent_update [OF all c, of key]
  have count: "received_fragments info = total_fragments info \<longleftrightarrow> None \<notin> set fs"
    if "fragment_info_received info"
  proof -
    from c that have "length fs = ?n" "length fs < 2 ^ 32" by (auto simp: pkg consistent_def)
    moreover have "received_count fs < 2 ^ 32"
      using received_count_le [of fs] calculation(2) by (rule le_less_trans)
    ultimately have "received_fragments info = total_fragments info \<longleftrightarrow> received_count fs = length fs"
      using c by (auto simp: pkg consistent_def word_unat_eq_iff unat_of_nat_u32)
    then show ?thesis by (simp add: received_count_full)
  qed
  consider (no_info) "\<not> fragment_info_received info"
    | (missing) "fragment_info_received info" "None \<in> set fs"
    | (full) "fragment_info_received info" "None \<notin> set fs" by blast
  then show ?thesis
  proof cases
    case no_info
    with ok show ?thesis
      by (auto simp: handle_fragmented_package_if_complete_def pkg abs_map_update intro!: implementsI)
  next
    case missing
    from c missing have n: "length fs = ?n" by (simp add: pkg consistent_def)
    from missing(2) obtain i where "i < length fs" "fs ! i = None" by (auto simp: in_set_conv_nth)
    then have "\<not> list_all (\<lambda>i. snd (abs_package pkg) i \<noteq> None) [0..<?n]"
      using n by (auto simp: pkg list_all_iff intro!: bexI [of _ i])
    with ok missing count show ?thesis
      by (auto simp: handle_fragmented_package_if_complete_def pkg abs_map_update intro!: implementsI)
  next
    case full
    from c full have n: "length fs = ?n" and "length fs < 2 ^ 32" by (simp_all add: pkg consistent_def)
    define bs where "bs = map the fs"
    from full(2) have fs: "fs = map Some bs" unfolding bs_def by (rule full_fragments)
    have v: "valid_buffer b" "buffer_size b < 2 ^ 32" if "b \<in> set bs" for b
      using c that by (auto simp: pkg fs consistent_def)
    have all': "list_all (\<lambda>i. snd (abs_package pkg) i \<noteq> None) [0..<?n]"
      using n by (auto simp: pkg fs list_all_iff)
    have msg: "concat (map (\<lambda>i. the (snd (abs_package pkg) i)) [0..<?n]) = concat (map buffer_bytes bs)"
      using n by (intro arg_cong [of _ _ concat] nth_equalityI) (auto simp: pkg fs)
    have cum: "cummulated_package_sizes fs 0 = Inr (sum_list (map buffer_size bs))"
      using cummulated_sum [of 0 bs] sizes_bound [of bs] v \<open>length fs < 2 ^ 32\<close> by (simp add: fs)
    have chk: "check_complete (abs_package pkg) =
      (if sum_list (map buffer_size bs) = ?len then (Some (concat (map buffer_bytes bs)), OK)
       else (None, MALFORMED_REASSEMBLED_MESSAGE), nothing)"
      using full all' msg length_concat_buffers [OF v(1)] by (simp add: pkg Let_def)
    note rem = all_consistent_remove [OF ok, of key]
    show ?thesis
    proof (cases "sum_list (map buffer_size bs) = ?len")
      case True
      have "reassemble_package pool pkg = Inr (owning_buffer 0 ?len (concat (map buffer_bytes bs)))"
        using reassemble_full [of pkg bs pool] v True by (simp add: pkg fs)
      with full count cum chk True rem show ?thesis
        by (auto simp: handle_fragmented_package_if_complete_def pkg abs_map_remove valid_buffer_def
            length_concat_buffers [OF v(1)] intro!: implementsI)
    next
      case False
      with full count cum chk rem show ?thesis
        by (auto simp: handle_fragmented_package_if_complete_def pkg abs_map_remove size_error_def
            intro!: implementsI)
    qed
  qed
qed

lemma consistent_at:
  "all_consistent ps \<Longrightarrow> consistent (case ps key of None \<Rightarrow> empty_package | Some pkg \<Rightarrow> pkg)"
  by (cases "ps key") (simp_all add: all_consistent_def consistent_empty del: split_paired_All)

lemma abs_map_at:
  "abs_map ps key = abs_package (case ps key of None \<Rightarrow> empty_package | Some pkg \<Rightarrow> pkg)"
  by (auto simp: abs_map_def abs_empty_package split: option.split)

lemma set_vector_resize: "x \<in> set (vector_resize None n fs) \<Longrightarrow> x \<in> set fs \<or> x = None"
  by (auto simp: vector_resize_def dest: in_set_takeD)

text \<open>The package after the announcement of its size.\<close>

fun announce :: "u32 \<Rightarrow> u32 \<Rightarrow> int \<Rightarrow> fragmented_package \<Rightarrow> fragmented_package" where
  "announce n len now (info, fs) =
     (info\<lparr>fragment_info_received := True, total_fragments := n, total_size_bytes := len,
        last_access := now\<rparr>, vector_resize None (unat n) fs)"

lemma announced_package:
  assumes c: "consistent (info, fs)" and t: "\<not> list_ex (\<lambda>f. f \<noteq> None) (drop (unat n) fs)"
  shows "consistent (announce n len now (info, fs))"
    and "abs_package (announce n len now (info, fs)) = (Some (unat n, unat len), snd (abs_package (info, fs)))"
proof -
  let ?fs = "vector_resize None (unat n) fs"
  have rest: "received_count (drop (unat n) fs) = 0"
    using t by (auto simp: received_count_def filter_empty_conv list_ex_iff)
  then have "received_count ?fs = received_count fs"
    using received_count_drop [of fs "unat n"] by (simp add: received_count_resize)
  with c unat_u32_less [of n] show "consistent (announce n len now (info, fs))"
    by (auto simp: consistent_def dest: set_vector_resize)
  have "fs ! i = None" if "i < length fs" "\<not> i < unat n" for i
    using t that by (auto simp: list_ex_iff in_set_conv_nth dest!: bspec [where x = "fs ! i"])
      (metis (no_types, lifting) add_diff_inverse_nat diff_less_mono not_less)
  then show "abs_package (announce n len now (info, fs)) = (Some (unat n, unat len), snd (abs_package (info, fs)))"
    by (auto simp: nth_vector_resize)
qed

lemma info_handler_eq:
  assumes "(case ps (ep, header_id h buffer) of None \<Rightarrow> empty_package | Some pkg \<Rightarrow> pkg) = pkg"
  shows "handle_datagram_fragmented_message_info h pool now buffer ep err ps =
    (let key = (ep, header_id h buffer); pkg' = announce (header_num h buffer) (header_len h buffer) now pkg
     in if fragment_info_received (fst pkg)
        then Inr (None, make_error DUPLICATE_DATAGRAM
          (''Received fragment info for package '' @ to_string_int (sint (header_id h buffer)) @ '' twice''), ps)
        else handle_fragmented_package_if_complete pool key pkg' err (ps(key \<mapsto> pkg')))"
  using assms
  by (cases pkg; cases "ps (ep, header_id h buffer)")
    (auto simp: handle_datagram_fragmented_message_info_def Let_def empty_package_def)

lemma info_implements:
  assumes all: "all_consistent ps" and len: "sizeof_Header \<le> length buffer"
    and ty: "header_type h buffer = 1" and t: "\<not> truncating h buffer ep ps"
  shows "implements (handle_datagram_fragmented_message_info h pool now buffer ep err ps)
    (at_key (ep, header_id h buffer)
      (spec_info (unat (header_num h buffer)) (unat (header_len h buffer))) (abs_map ps))"
proof -
  let ?key = "(ep, header_id h buffer)" and ?n = "header_num h buffer" and ?len = "header_len h buffer"
  obtain info fs where pkg: "(case ps ?key of None \<Rightarrow> empty_package | Some pkg \<Rightarrow> pkg) = (info, fs)"
    by fastforce
  have a: "abs_map ps ?key = abs_package (info, fs)" by (simp add: abs_map_at pkg)
  show ?thesis
  proof (cases "fragment_info_received info")
    case True
    with all a show ?thesis
      by (auto simp: info_handler_eq [of ps ep h buffer "(info, fs)", OF pkg] at_key_def Let_def
          intro!: implementsI)
  next
    case False
    let ?pkg = "announce ?n ?len now (info, fs)"
    have h: "handle_datagram_fragmented_message_info h pool now buffer ep err ps =
      handle_fragmented_package_if_complete pool ?key ?pkg err (ps(?key \<mapsto> ?pkg))"
      using False by (simp add: info_handler_eq [of ps ep h buffer "(info, fs)", OF pkg] Let_def)
    have "consistent (info, fs)" using consistent_at [OF all, of ?key] by (simp add: pkg)
    moreover have "\<not> list_ex (\<lambda>f. f \<noteq> None) (drop (unat ?n) fs)"
      using t False pkg len ty by (auto simp: truncating_def empty_package_def split: option.splits)
    ultimately have "consistent ?pkg"
      and ab: "abs_package ?pkg = (Some (unat ?n, unat ?len), snd (abs_package (info, fs)))"
      by (rule announced_package)+
    have "abs_map ps ?key = (None, snd (abs_package (info, fs)))" using a False by simp
    then have "spec_info (unat ?n) (unat ?len) (abs_map ps ?key) = check_complete (abs_package ?pkg)"
      by (simp only: spec_info.simps ab) simp
    with if_complete_implements [OF \<open>consistent ?pkg\<close> all, of pool ?key err] show ?thesis
      by (simp only: h at_key_def)
  qed
qed

text \<open>The slot of a fragment, made before the number is checked.\<close>

fun make_slot :: "u32 \<Rightarrow> fragmented_package \<Rightarrow> fragmented_package" where
  "make_slot num (info, fs) =
     (info,
      if \<not> fragment_info_received info
      then vector_resize None (max (length fs) (unat (num + 1))) fs else fs)"

lemma slot_package:
  assumes c: "consistent pkg"
  shows "consistent (make_slot num pkg)" and "abs_package (make_slot num pkg) = abs_package pkg"
    and "of_nat (length (snd (make_slot num pkg))) \<le> num \<longleftrightarrow>
      fragment_limit (fst (abs_package pkg)) \<le> unat num"
proof -
  obtain info fs where pkg: "pkg = (info, fs)" by (cases pkg)
  let ?fs = "vector_resize None (max (length fs) (unat (num + 1))) fs"
  have len: "length fs < 2 ^ 32" using c by (simp add: pkg consistent_def)
  have "received_count ?fs = received_count fs" by (simp add: received_count_resize)
  with c unat_u32_less [of "num + 1"] show "consistent (make_slot num pkg)"
    by (auto simp: pkg consistent_def dest: set_vector_resize)
  show "abs_package (make_slot num pkg) = abs_package pkg"
    by (auto simp: pkg fun_eq_iff nth_vector_resize)
  show "of_nat (length (snd (make_slot num pkg))) \<le> num \<longleftrightarrow>
      fragment_limit (fst (abs_package pkg)) \<le> unat num"
  proof (cases "fragment_info_received info")
    case True
    with c have "length fs = unat (total_fragments info)" by (simp add: pkg consistent_def)
    with True show ?thesis by (simp add: pkg word_le_nat_alt)
  next
    case False
    have le: "of_nat k \<le> num \<longleftrightarrow> k \<le> unat num" if "k < 2 ^ 32" for k
      using that by (simp add: word_le_nat_alt unat_of_nat_u32)
    have max: "unat (- 1 :: u32) = 2 ^ 32 - 1"
      by (simp add: unsigned_minus_1_eq_mask mask_eq_exp_minus_1)
    show ?thesis
    proof (cases "num = - 1")
      case True
      then show ?thesis using False len le [of "length fs"] max by (simp add: pkg)
    next
      case num: False
      with max have "unat num \<noteq> 2 ^ 32 - 1" by (metis word_unat_eq_iff)
      with unat_u32_less [of num] have "unat num < 2 ^ 32 - 1" by simp
      moreover from this have "unat (num + 1) = unat num + 1" by (simp add: unat_word_ariths)
      ultimately show ?thesis
        using False len le [of "max (length fs) (unat num + 1)"] by (simp add: pkg)
    qed
  qed
qed

text \<open>One more fragment in its slot.\<close>

fun add_fragment :: "u32 \<Rightarrow> OwningBuffer \<Rightarrow> int \<Rightarrow> fragmented_package \<Rightarrow> fragmented_package" where
  "add_fragment num b now (info, fs) =
     (info\<lparr>received_fragments := received_fragments info + 1, last_access := now\<rparr>,
      fs[unat num := Some b])"

lemma added_package:
  assumes c: "consistent pkg" and i: "unat num < length (snd pkg)" "snd pkg ! unat num = None"
    and b: "valid_buffer b" "buffer_size b < 2 ^ 32"
  shows "consistent (add_fragment num b now pkg)"
    and "abs_package (add_fragment num b now pkg) =
      (fst (abs_package pkg), (snd (abs_package pkg))(unat num \<mapsto> buffer_bytes b))"
proof -
  obtain info fs where pkg: "pkg = (info, fs)" by (cases pkg)
  show "consistent (add_fragment num b now pkg)"
    using assms received_count_update [of "unat num" fs b]
    by (auto simp: pkg consistent_def add.commute dest: set_update_subset_insert [THEN subsetD])
  show "abs_package (add_fragment num b now pkg) =
      (fst (abs_package pkg), (snd (abs_package pkg))(unat num \<mapsto> buffer_bytes b))"
    using i by (auto simp: pkg nth_list_update)
qed

lemma fragment_handler_eq:
  assumes pkg: "(case ps (ep, header_id h buffer) of None \<Rightarrow> empty_package | Some pkg \<Rightarrow> pkg) = pkg"
  shows "handle_datagram_fragment h pool now buffer ep err ps =
    (let key = (ep, header_id h buffer); num = header_num h buffer;
         slot = make_slot num pkg;
         ps = ps(key \<mapsto> slot)
     in if of_nat (length (snd slot)) \<le> num
        then Inr (None, make_error MALFORMED_DATAGRAM
             (''Fragment number '' @ to_string (unat num) @
              '' is invalid. Should be smaller than '' @ to_string (length (snd slot))), ps)
        else if snd slot ! unat num \<noteq> None
        then Inr (None, make_error DUPLICATE_DATAGRAM
             (''Fragment '' @ to_string (unat num) @
              '' for package '' @ to_string_int (sint (header_id h buffer))), ps)
        else if header_len h buffer > bytes_available (length buffer)
        then Inr (None, faulty_size ''fragment'' (header_len h buffer) (bytes_available (length buffer)), ps)
        else
          (let pkg = add_fragment num (owning_buffer sizeof_Header (unat (header_len h buffer)) buffer) now slot
           in handle_fragmented_package_if_complete pool key pkg err (ps(key \<mapsto> pkg))))"
  by (cases pkg) (simp add: handle_datagram_fragment_def pkg Let_def)

lemma fragment_implements:
  assumes all: "all_consistent ps"
    and len: "sizeof_Header \<le> length buffer" "length buffer < 2 ^ 32"
  shows "implements (handle_datagram_fragment h pool now buffer ep err ps)
    (at_key (ep, header_id h buffer)
      (spec_fragment (unat (header_num h buffer)) (payload_of h buffer)) (abs_map ps))"
proof -
  let ?key = "(ep, header_id h buffer)" and ?num = "header_num h buffer"
  define pkg where "pkg = (case ps ?key of None \<Rightarrow> empty_package | Some pkg \<Rightarrow> pkg)"
  define slot where "slot = make_slot ?num pkg"
  have c: "consistent pkg" unfolding pkg_def by (rule consistent_at [OF all])
  note s = slot_package [OF c, of ?num, folded slot_def]
  let ?ps = "ps(?key \<mapsto> slot)"
  have ps: "abs_map ?ps = abs_map ps" "abs_map ps ?key = abs_package slot"
    using s(2) by (auto simp: abs_map_update abs_map_at [of ps] pkg_def)
  have ok: "all_consistent ?ps" by (rule all_consistent_update [OF all s(1)])
  note h = fragment_handler_eq [of ps ep h buffer pkg pool now err, OF pkg_def [symmetric], unfolded Let_def, folded slot_def]
  obtain i m where im: "abs_package slot = (i, m)" by (cases "abs_package slot")
  have lim: "of_nat (length (snd slot)) \<le> ?num \<longleftrightarrow> fragment_limit i \<le> unat ?num"
    using s(3) by (simp only: s(2) [symmetric] im fst_conv)
  show ?thesis
  proof (cases "of_nat (length (snd slot)) \<le> ?num")
    case True
    with lim ok ps show ?thesis
      by (simp add: h) (auto simp: at_key_unchanged im intro!: implementsI)
  next
    case False
    have "length (snd slot) < 2 ^ 32" using s(1) by (simp add: consistent_def)
    with False have idx: "unat ?num < length (snd slot)"
      by (simp add: word_le_nat_alt unat_of_nat_u32 not_le)
    then have m: "m (unat ?num) = map_option buffer_bytes (snd slot ! unat ?num)"
      using im by (cases slot) auto
    show ?thesis
    proof (cases "snd slot ! unat ?num = None")
      case False
      with \<open>\<not> _ \<le> ?num\<close> lim ok ps m show ?thesis
        by (simp add: h) (auto simp: at_key_unchanged im intro!: implementsI)
    next
      case free: True
      show ?thesis
      proof (cases "header_len h buffer > bytes_available (length buffer)")
        case True
        with \<open>\<not> _ \<le> ?num\<close> free lim ok ps m show ?thesis
          by (simp add: h)
            (auto simp: at_key_unchanged im payload_of_def faulty_size_def intro!: implementsI)
      next
        case big: False
        define b where "b = owning_buffer sizeof_Header (unat (header_len h buffer)) buffer"
        have b: "valid_buffer b" "payload_of h buffer = Some (buffer_bytes b)" "buffer_size b < 2 ^ 32"
          using payload_view [OF len big] unat_u32_less [of "header_len h buffer"] by (simp_all add: b_def)
        note a = added_package [OF s(1) idx free b(1,3), of now]
        have "spec_fragment (unat ?num) (payload_of h buffer) (abs_map ps ?key) =
            check_complete (abs_package (add_fragment ?num b now slot))"
          using \<open>\<not> _ \<le> ?num\<close> lim m free by (simp only: a ps b im) simp
        moreover have "handle_datagram_fragment h pool now buffer ep err ps =
            handle_fragmented_package_if_complete pool ?key (add_fragment ?num b now slot) err
              (?ps(?key \<mapsto> add_fragment ?num b now slot))"
          using \<open>\<not> _ \<le> ?num\<close> free big by (simp add: h b_def)
        ultimately show ?thesis
          using if_complete_implements [OF a(1) ok, of pool ?key err] by (simp only: at_key_def ps)
      qed
    qed
  qed
qed

lemma handle_datagram_implements:
  assumes "all_consistent ps" "length buffer < 2 ^ 32" "\<not> truncating h buffer ep ps"
  shows "implements (handle_datagram h pool now buffer ep err ps)
    (spec_receive ep (parse h buffer) (abs_map ps))"
proof -
  consider "length buffer < sizeof_Header"
    | (info) "sizeof_Header \<le> length buffer" "header_type h buffer = 1"
    | (fragment) "sizeof_Header \<le> length buffer" "header_type h buffer = 2"
    | (whole) "sizeof_Header \<le> length buffer" "header_type h buffer = 3"
    | "sizeof_Header \<le> length buffer" "header_type h buffer \<notin> {1, 2, 3}"
    by fastforce
  then show ?thesis
  proof cases
    case info
    then show ?thesis
      using info_implements [OF assms(1) info assms(3)] by (simp add: handle_datagram_def parse_def)
  next
    case fragment
    then show ?thesis
      using fragment_implements [OF assms(1) fragment(1) assms(2)]
      by (simp add: handle_datagram_def parse_def)
  next
    case whole
    show ?thesis
    proof (cases "header_len h buffer > bytes_available (length buffer)")
      case True
      with whole assms(1) show ?thesis
        by (auto simp: handle_datagram_def parse_def handle_datagram_non_fragmented_message_def
            payload_of_def faulty_size_def intro!: implementsI)
    next
      case False
      note v = payload_view [OF whole(1) assms(2) False]
      from False v whole assms(1) show ?thesis
        by (auto simp: handle_datagram_def parse_def handle_datagram_non_fragmented_message_def
            intro!: implementsI)
    qed
  qed (use assms(1) in \<open>auto simp: handle_datagram_def parse_def intro!: implementsI\<close>)
qed

section \<open>Properties\<close>


lemma wire_header_reads [wire]:
  "header_type h (wire_header m ty i n l) = ty"
  "header_id h (wire_header m ty i n l) = i"
  "header_num h (wire_header m ty i n l) = n"
  "header_len h (wire_header m ty i n l) = l"
  using wire_header_fields(3-6) [of h m ty i n l "[]"] by simp_all

lemma parse_wire [wire]:
  "parse h (wire_header m 1 i n l @ p) = Info i (unat n) (unat l)"
  "parse h (wire_header m 1 i n l) = Info i (unat n) (unat l)"
  "parse h (wire_header m 2 i n l @ p) = Fragment i (unat n) (payload_of h (wire_header m 2 i n l @ p))"
  "parse h (wire_header m 3 i n l @ p) = Whole (payload_of h (wire_header m 3 i n l @ p))"
  by (simp_all add: parse_def wire)

lemma payload_wire [wire]:
  assumes "sizeof_Header + length p < 2 ^ 32"
  shows "payload_of h (wire_header m ty i n (of_nat (length p)) @ p) = Some p"
  using assms by (simp add: payload_of_def wire bytes_available_eq unat_of_nat_u32 slice_append_right)


lemma announce_handler:
  assumes "ps (ep, header_id h buffer) = Some pkg" "\<not> fragment_info_received (fst pkg)"
    "sizeof_Header \<le> length buffer" "header_type h buffer = 1"
  shows "handle_datagram h pool now buffer ep err ps =
    handle_fragmented_package_if_complete pool (ep, header_id h buffer)
      (announce (header_num h buffer) (header_len h buffer) now pkg) err
      (ps((ep, header_id h buffer) \<mapsto> announce (header_num h buffer) (header_len h buffer) now pkg))"
  using assms
  by (cases pkg) (simp add: handle_datagram_def handle_datagram_fragmented_message_info_def Let_def)

text \<open>
  C11: the only way to fault. In a consistent state, a datagram makes the handler run into
  undefined behaviour exactly when it is a fragmentation info that announces as many fragments
  as have been received, of which at least one has a number beyond the announced count: the
  resize drops that fragment, the counter still counts it, and the loop over the fragments
  dereferences a null pointer.
\<close>

theorem reassembly_faults_iff:
  assumes "all_consistent ps" and "length buffer < 2 ^ 32"
  shows "handle_datagram h pool now buffer ep err ps = Inl f \<longleftrightarrow>
    f = Null_Dereference \<and> truncating h buffer ep ps \<and>
    map_option (\<lambda>pkg. received_count (snd pkg)) (ps (ep, header_id h buffer)) =
      Some (unat (header_num h buffer))"
proof (cases "truncating h buffer ep ps")
  case False
  with handle_datagram_implements [OF assms False, of pool now err] show ?thesis
    by (auto simp: implements_def)
next
  case True
  then obtain info fs where pkg: "ps (ep, header_id h buffer) = Some (info, fs)"
      "\<not> fragment_info_received info"
    and h: "sizeof_Header \<le> length buffer" "header_type h buffer = 1"
    and dropped: "list_ex (\<lambda>f. f \<noteq> None) (drop (unat (header_num h buffer)) fs)"
    by (auto simp: truncating_def split: option.splits)
  let ?n = "unat (header_num h buffer)"
  from pkg assms(1) have c: "consistent (info, fs)" by (simp add: all_consistent_def)
  then have "received_count fs < 2 ^ 32"
    using received_count_le [of fs] by (simp add: consistent_def)
  with c have eq: "received_fragments info = header_num h buffer \<longleftrightarrow> received_count fs = ?n"
    by (auto simp: consistent_def word_unat_eq_iff unat_of_nat_u32)
  have "received_count (drop ?n fs) \<noteq> 0"
    using dropped by (auto simp: received_count_def filter_empty_conv list_ex_iff)
  then have "received_count fs = ?n \<Longrightarrow> received_count (vector_resize None ?n fs) \<noteq> ?n"
    using received_count_drop [of fs ?n] by (simp add: received_count_resize)
  then have "received_count fs = ?n \<Longrightarrow> None \<in> set (vector_resize None ?n fs)"
    using received_count_full [of "vector_resize None ?n fs"] by auto
  then have "received_count fs = ?n \<Longrightarrow>
      cummulated_package_sizes (vector_resize None ?n fs) 0 = Inl Null_Dereference"
    by (rule cummulated_null)
  with True eq pkg announce_handler [of ps ep h buffer "(info, fs)" pool now err, OF pkg(1) _ h] show ?thesis
    by (auto simp: handle_fragmented_package_if_complete_def)
qed

text \<open>A fragment with the number 1 comes first, then the info announces one fragment only.\<close>

lemma early_fragment_eq:
  "handle_datagram h pool now (wire_header m 2 i 1 0) ep err Map.empty =
     Inr (None, assign_code OK err,
       [(ep, i) \<mapsto> (\<lparr>fragment_info_received = False, total_fragments = 0, total_size_bytes = 0,
          received_fragments = 1, last_access = now\<rparr>,
          [None, Some (owning_buffer sizeof_Header 0 (wire_header m 2 i 1 0))])])"
proof -
  have "vector_resize None 2 [] = [None, None :: OwningBuffer option]"
    by (simp add: vector_resize_def numeral_2_eq_2)
  moreover have "\<not> (2 :: u32) \<le> 1" by (simp add: word_le_nat_alt)
  ultimately show ?thesis
    by (simp add: handle_datagram_def handle_datagram_fragment_def wire bytes_available_eq Let_def
        empty_package_def handle_fragmented_package_if_complete_def)
qed

lemma early_fragment:
  "\<exists>err' pkg. handle_datagram h pool now (wire_header m 2 i 1 0) ep err Map.empty =
     Inr (None, err', [(ep, i) \<mapsto> pkg]) \<and> consistent pkg \<and> \<not> fragment_info_received (fst pkg) \<and>
     received_count (snd pkg) = 1 \<and> length (snd pkg) = 2 \<and> snd pkg ! 1 \<noteq> None"
  unfolding early_fragment_eq
  by (intro exI conjI, rule refl) (simp_all add: consistent_def valid_buffer_def)

theorem reassembly_faults_iff_witness:
  "\<exists>ps :: nat fragmented_package_map. all_consistent ps \<and>
     handle_datagram Big_Endian (\<lambda>_. 0) 8 (wire_header (1, 2, 3, 4) 1 77 1 0) 4
       (error_of_code GENERIC_ERROR) ps = Inl Null_Dereference"
proof -
  obtain pkg where p: "consistent pkg" "\<not> fragment_info_received (fst pkg)"
    "received_count (snd pkg) = 1" "length (snd pkg) = 2" "snd pkg ! 1 \<noteq> None"
    using early_fragment [of Big_Endian "\<lambda>_. 0" 0 "(1, 2, 3, 4)" 77 "4 :: nat" "error_of_code OK"]
    by blast
  let ?ps = "[(4 :: nat, 77) \<mapsto> pkg]" and ?d = "wire_header (1, 2, 3, 4) 1 77 1 0"
  have "drop 1 (snd pkg) = [snd pkg ! 1]"
    using p(4) by (simp add: list_eq_iff_nth_eq nth_drop)
  then have "truncating Big_Endian ?d 4 ?ps"
    using p by (simp add: truncating_def wire)
  moreover have "all_consistent ?ps"
    using all_consistent_update [OF all_consistent_empty p(1), of "(4, 77)"] by simp
  moreover have "length ?d < 2 ^ 32" by (simp add: layout)
  ultimately show ?thesis
    using reassembly_faults_iff [of ?ps ?d Big_Endian "\<lambda>_. 0" 8 4 "error_of_code GENERIC_ERROR"
        Null_Dereference] p(3)
    by (intro exI [of _ ?ps]) (simp add: wire)
qed

text \<open>
  C23: two datagrams without payload crash the receiver. Whatever the byte order, the clock and
  the sender: a fragment with the number 1 is accepted, and the info that then announces one
  fragment makes the reassembly dereference a null pointer.
\<close>

theorem reassembly_crash:
  "\<exists>err ps. handle_datagram h pool t (wire_header m 2 i 1 0) ep e Map.empty = Inr (None, err, ps) \<and>
     handle_datagram h pool t' (wire_header m 1 i 1 len) ep e' ps = Inl Null_Dereference"
proof -
  obtain err pkg where s: "handle_datagram h pool t (wire_header m 2 i 1 0) ep e Map.empty =
      Inr (None, err, [(ep, i) \<mapsto> pkg])"
    and p: "consistent pkg" "\<not> fragment_info_received (fst pkg)" "received_count (snd pkg) = 1"
      "length (snd pkg) = 2" "snd pkg ! 1 \<noteq> None"
    using early_fragment [of h pool t m i ep e] by blast
  obtain info fs where pkg: "pkg = (info, fs)" by (cases pkg)
  from p obtain x where fs: "fs = [None, Some x]"
    by (auto simp: pkg length_Suc_conv numeral_2_eq_2 split: if_splits)
  have "handle_datagram h pool t' (wire_header m 1 i 1 len) ep e' [(ep, i) \<mapsto> pkg] =
      handle_fragmented_package_if_complete pool (ep, i) (announce 1 len t' pkg) e'
        ([(ep, i) \<mapsto> pkg, (ep, i) \<mapsto> announce 1 len t' pkg])"
    using p(2) by (subst announce_handler [of _ _ _ _ pkg]) (simp_all add: wire)
  also have "\<dots> = Inl Null_Dereference"
    using p(1) by (simp add: handle_fragmented_package_if_complete_def pkg fs consistent_def vector_resize_def)
  finally show ?thesis using s by blast
qed

lemma if_complete_frame:
  assumes "handle_fragmented_package_if_complete pool key pkg err ps = Inr (b, err', ps')"
  shows "ps' = ps \<or> ps' = ps(key := None)"
  using assms by (auto simp: handle_fragmented_package_if_complete_def split: if_splits sum.splits)

lemma handle_datagram_frame:
  assumes "handle_datagram h pool now buffer ep err ps = Inr (b, err', ps')"
  shows "(\<forall>key. key \<noteq> (ep, header_id h buffer) \<longrightarrow> ps' key = ps key) \<and>
    (\<forall>pkg. ps' (ep, header_id h buffer) = Some pkg \<longrightarrow>
       last_access (fst pkg) = now \<or> ps' = ps \<or>
       err_code err' \<noteq> OK \<and>
       last_access (fst pkg) =
         (case ps (ep, header_id h buffer) of None \<Rightarrow> 0 | Some old \<Rightarrow> last_access (fst old)))"
proof -
  let ?key = "(ep, header_id h buffer)"
  define old where "old = (case ps ?key of None \<Rightarrow> empty_package | Some pkg \<Rightarrow> pkg)"
  have st: "last_access (fst old) = (case ps ?key of None \<Rightarrow> 0 | Some old \<Rightarrow> last_access (fst old))"
    by (auto simp: old_def empty_package_def split: option.split)
  have stored: "(\<forall>key. key \<noteq> ?key \<longrightarrow> ps' key = ps key) \<and>
      (\<forall>pkg. ps' ?key = Some pkg \<longrightarrow> last_access (fst pkg) = now)"
    if "handle_fragmented_package_if_complete pool ?key p err (ps(?key \<mapsto> p)) = Inr (b, err', ps')"
      "last_access (fst p) = now" for p
    using if_complete_frame [OF that(1)] that(2) by auto
  consider (same) "ps' = ps"
    | (info) "handle_datagram_fragmented_message_info h pool now buffer ep err ps = Inr (b, err', ps')"
    | (fragment) "handle_datagram_fragment h pool now buffer ep err ps = Inr (b, err', ps')"
    using assms by (auto simp: handle_datagram_def split: if_splits prod.splits)
  then show ?thesis
  proof cases
    case info
    then consider "ps' = ps" | "handle_fragmented_package_if_complete pool ?key
        (announce (header_num h buffer) (header_len h buffer) now old) err
        (ps(?key \<mapsto> announce (header_num h buffer) (header_len h buffer) now old)) = Inr (b, err', ps')"
      unfolding info_handler_eq [of ps ep h buffer old pool now err, OF old_def [symmetric]] Let_def
      by (auto split: if_splits)
    then show ?thesis
    proof cases
      case 2
      have "last_access (fst (announce (header_num h buffer) (header_len h buffer) now old)) = now"
        by (cases old) simp
      from stored [OF 2 this] show ?thesis by blast
    qed simp
  next
    case fragment
    let ?slot = "make_slot (header_num h buffer) old"
    let ?p = "add_fragment (header_num h buffer)
      (owning_buffer sizeof_Header (unat (header_len h buffer)) buffer) now ?slot"
    have sl: "last_access (fst ?slot) = last_access (fst old)" by (cases old) simp
    note h = fragment_handler_eq [of ps ep h buffer old pool now err, OF old_def [symmetric], unfolded Let_def]
    have "(ps' = ps(?key \<mapsto> ?slot) \<and> err_code err' \<noteq> OK) \<or>
        handle_fragmented_package_if_complete pool ?key ?p err (ps(?key \<mapsto> ?slot, ?key \<mapsto> ?p)) =
          Inr (b, err', ps')"
    proof (cases "of_nat (length (snd ?slot)) \<le> header_num h buffer \<or>
        snd ?slot ! unat (header_num h buffer) \<noteq> None \<or>
        header_len h buffer > bytes_available (length buffer)")
      case True
      with fragment show ?thesis unfolding h by (elim disjE) (auto simp: faulty_size_def split: if_splits)
    next
      case False
      with fragment show ?thesis unfolding h by simp
    qed
    then consider (rejected) "ps' = ps(?key \<mapsto> ?slot)" "err_code err' \<noteq> OK"
      | (added) "handle_fragmented_package_if_complete pool ?key ?p err
          (ps(?key \<mapsto> ?slot, ?key \<mapsto> ?p)) = Inr (b, err', ps')" by blast
    moreover have "last_access (fst ?p) = now" by (cases ?slot) simp
    ultimately show ?thesis
    proof cases
      case rejected
      with sl st show ?thesis by auto
    next
      case added
      with stored [of ?p] \<open>last_access (fst ?p) = now\<close> show ?thesis by simp
    qed
  qed simp
qed



end
