(* ===== verification/Delivery.thy ===== *)
theory Delivery
  imports Datagram_Builder Reassembly_Spec "HOL-Library.Multiset"
begin

text \<open>
  The protocol end to end: the datagrams the builder makes of some messages, received in any
  order and interleaved in any way, are reassembled to exactly these messages. The argument
  runs on the abstract receiver of \<open>Reassembly_Spec\<close>: datagrams with different keys do
  not see each other, and the datagrams with one key make one message whatever their order.
\<close>

section \<open>Runs of the two receivers\<close>

text \<open>The handler applied to one datagram after the other; the error object is reused.\<close>

fun receive_all ::
    "host \<Rightarrow> (nat \<Rightarrow> byte) \<Rightarrow> (int \<times> byte list \<times> 'ep) list \<Rightarrow> Error \<Rightarrow>
     'ep fragmented_package_map \<Rightarrow>
     fault + ('ep \<times> OwningBuffer option \<times> Error) list \<times> 'ep fragmented_package_map" where
  "receive_all h pool [] err ps = Inr ([], ps)"
| "receive_all h pool ((now, buffer, ep) # ds) err ps =
     (case handle_datagram h pool now buffer ep err ps of
        Inl f \<Rightarrow> Inl f
      | Inr (b, err', ps') \<Rightarrow>
          (case receive_all h pool ds err' ps' of
             Inl f \<Rightarrow> Inl f
           | Inr (rs, ps'') \<Rightarrow> Inr ((ep, b, err') # rs, ps'')))"

type_synonym 'ep event = "'ep \<times> parsed"

fun spec_run :: "'ep event list \<Rightarrow> 'ep partials \<Rightarrow> ('ep \<times> verdict) list \<times> 'ep partials" where
  "spec_run [] st = ([], st)"
| "spec_run ((ep, p) # es) st =
     (case spec_receive ep p st of
        (v, st') \<Rightarrow> (case spec_run es st' of (vs, st'') \<Rightarrow> ((ep, v) # vs, st'')))"

text \<open>No info on the way announces fewer fragments than already received.\<close>

fun spec_truncating :: "'ep \<Rightarrow> parsed \<Rightarrow> 'ep partials \<Rightarrow> bool" where
  "spec_truncating ep (Info i n len) st \<longleftrightarrow>
     fst (st (ep, i)) = None \<and> (\<exists>k \<ge> n. snd (st (ep, i)) k \<noteq> None)"
| "spec_truncating ep _ st \<longleftrightarrow> False"

fun safe_run :: "'ep event list \<Rightarrow> 'ep partials \<Rightarrow> bool" where
  "safe_run [] st \<longleftrightarrow> True"
| "safe_run ((ep, p) # es) st \<longleftrightarrow>
     \<not> spec_truncating ep p st \<and> safe_run es (snd (spec_receive ep p st))"

lemma truncating_spec:
  "truncating h buffer ep ps \<Longrightarrow> spec_truncating ep (parse h buffer) (abs_map ps)"
proof -
  assume "truncating h buffer ep ps"
  then obtain info fs where p: "ps (ep, header_id h buffer) = Some (info, fs)"
      "\<not> fragment_info_received info" "sizeof_Header \<le> length buffer" "header_type h buffer = 1"
    and "list_ex (\<lambda>f. f \<noteq> None) (drop (unat (header_num h buffer)) fs)"
    by (auto simp: truncating_def split: option.splits)
  then obtain k where "k < length fs - unat (header_num h buffer)"
    "fs ! (unat (header_num h buffer) + k) \<noteq> None"
    by (auto simp: list_ex_length)
  with p show ?thesis
    by (auto simp: parse_def abs_map_def intro!: exI [of _ "unat (header_num h buffer) + k"])
qed

text \<open>The refinement, carried over to runs.\<close>

lemma receive_all_refines:
  assumes "all_consistent ps" "\<forall>(now, buffer, ep) \<in> set ds. length buffer < 2 ^ 32"
    and "safe_run (map (\<lambda>(now, buffer, ep). (ep, parse h buffer)) ds) (abs_map ps)"
  shows "\<exists>rs ps'. receive_all h pool ds err ps = Inr (rs, ps') \<and> all_consistent ps' \<and>
    spec_run (map (\<lambda>(now, buffer, ep). (ep, parse h buffer)) ds) (abs_map ps) =
      (map (\<lambda>(ep, b, e). (ep, map_option buffer_bytes b, err_code e)) rs, abs_map ps')"
  using assms
proof (induction ds arbitrary: ps err)
  case (Cons d ds)
  obtain now buffer ep where d: "d = (now, buffer, ep)" by (metis prod_cases3)
  have "\<not> truncating h buffer ep ps"
    using Cons.prems(3) truncating_spec [of h buffer ep ps] by (auto simp: d)
  with Cons.prems have "implements (handle_datagram h pool now buffer ep err ps)
      (spec_receive ep (parse h buffer) (abs_map ps))"
    by (intro handle_datagram_implements) (auto simp: d)
  then obtain b err' ps' where s: "handle_datagram h pool now buffer ep err ps = Inr (b, err', ps')"
    "all_consistent ps'" "spec_receive ep (parse h buffer) (abs_map ps) =
      ((map_option buffer_bytes b, err_code err'), abs_map ps')"
    by (auto simp: implements_def prod_eq_iff)
  have "safe_run (map (\<lambda>(now, buffer, ep). (ep, parse h buffer)) ds) (abs_map ps')"
    using Cons.prems(3) s(3) by (simp add: d)
  with Cons.IH [OF s(2), of err'] Cons.prems(2) obtain rs ps'' where
    "receive_all h pool ds err' ps' = Inr (rs, ps'')" "all_consistent ps''"
    "spec_run (map (\<lambda>(now, buffer, ep). (ep, parse h buffer)) ds) (abs_map ps') =
      (map (\<lambda>(ep, b, e). (ep, map_option buffer_bytes b, err_code e)) rs, abs_map ps'')"
    by auto
  with s show ?case by (auto simp: d)
qed simp

section \<open>Datagrams with different keys\<close>

fun event_key :: "'ep event \<Rightarrow> ('ep \<times> u32) option" where
  "event_key (ep, Info i n len) = Some (ep, i)"
| "event_key (ep, Fragment i num p) = Some (ep, i)"
| "event_key _ = None"

lemma keyed_event:
  assumes "event_key (ep, p) = Some k"
  obtains f where "\<And>st. spec_receive ep p st = at_key k f st"
    and "\<And>st st'. st k = st' k \<Longrightarrow> spec_truncating ep p st = spec_truncating ep p st'"
  using assms by (cases p) auto

lemma unkeyed_event:
  assumes "event_key (ep, p) = None"
  obtains v where "\<And>st. spec_receive ep p st = (v, st)" and "\<And>st. \<not> spec_truncating ep p st"
proof (cases p)
  case (Whole q)
  then show ?thesis using that by (cases q) auto
qed (use assms that in auto)

abbreviation at :: "'ep \<times> u32 \<Rightarrow> 'ep event \<Rightarrow> bool" where
  "at k e \<equiv> event_key e = Some k"

abbreviation run_verdicts :: "'ep event list \<Rightarrow> 'ep partials \<Rightarrow> ('ep \<times> verdict) multiset" where
  "run_verdicts es st \<equiv> mset (fst (spec_run es st))"

text \<open>A run falls apart into the events of one key and the others.\<close>

lemma run_split:
  assumes "st1 k = st k" "\<And>k'. k' \<noteq> k \<Longrightarrow> st2 k' = st k'"
  shows "run_verdicts es st =
      run_verdicts (filter (at k) es) st1 + run_verdicts (filter (\<lambda>e. \<not> at k e) es) st2 \<and>
    (safe_run es st \<longleftrightarrow>
      safe_run (filter (at k) es) st1 \<and> safe_run (filter (\<lambda>e. \<not> at k e) es) st2) \<and>
    snd (spec_run es st) k = snd (spec_run (filter (at k) es) st1) k \<and>
    (\<forall>k'. k' \<noteq> k \<longrightarrow>
      snd (spec_run es st) k' = snd (spec_run (filter (\<lambda>e. \<not> at k e) es) st2) k')"
  using assms
proof (induction es arbitrary: st st1 st2)
  case (Cons e es)
  obtain ep p where e: "e = (ep, p)" by (cases e)
  show ?case
  proof (cases "event_key e")
    case None
    then obtain v where "\<And>st. spec_receive ep p st = (v, st)" "\<And>st. \<not> spec_truncating ep p st"
      using unkeyed_event [of ep p] by (metis e)
    with Cons.IH [of st1 st st2] Cons.prems None show ?thesis
      by (auto simp: e case_prod_unfold)
  next
    case (Some k')
    then obtain f where f: "\<And>st. spec_receive ep p st = at_key k' f st"
      and t: "\<And>st st'. st k' = st' k' \<Longrightarrow> spec_truncating ep p st = spec_truncating ep p st'"
      using keyed_event [of ep p k'] by (metis e)
    obtain v q where vq: "f (st k') = (v, q)" by (cases "f (st k')")
    show ?thesis
    proof (cases "k' = k")
      case True
      have r: "spec_receive ep p st = (v, st(k := q))" "spec_receive ep p st1 = (v, st1(k := q))"
        using vq Cons.prems True by (simp_all add: f at_key_def)
      have tr: "spec_truncating ep p st = spec_truncating ep p st1"
        by (rule t) (simp add: True Cons.prems)
      have a: "(st1(k := q)) k = (st(k := q)) k" by simp
      have b: "st2 k' = (st(k := q)) k'" if "k' \<noteq> k" for k'
        using Cons.prems(2) [OF that] that by simp
      show ?thesis
        using Cons.IH [of "st1(k := q)" "st(k := q)" st2, OF a b] Some True r tr
        by (simp add: e split_beta del: fun_upd_apply)
    next
      case False
      have r: "spec_receive ep p st = (v, st(k' := q))" "spec_receive ep p st2 = (v, st2(k' := q))"
        using vq Cons.prems(2) [OF False] by (simp_all add: f at_key_def)
      have tr: "spec_truncating ep p st = spec_truncating ep p st2"
        by (rule t) (simp add: Cons.prems(2) [OF False])
      have a: "st1 k = (st(k' := q)) k" using Cons.prems(1) False by simp
      have b: "(st2(k' := q)) k2 = (st(k' := q)) k2" if "k2 \<noteq> k" for k2
        using Cons.prems(2) [OF that] by simp
      show ?thesis
        using Cons.IH [of st1 "st(k' := q)" "st2(k' := q)", OF a b] Some False r tr
        by (simp add: e split_beta del: fun_upd_apply) blast
    qed
  qed
qed auto

section \<open>One message\<close>

text \<open>What a receiver sees of a fragmented message, and the state with a part of it.\<close>

definition message_events :: "'ep \<Rightarrow> u32 \<Rightarrow> byte list list \<Rightarrow> 'ep event list" where
  "message_events ep i cs =
     (ep, Info i (length cs) (length (concat cs))) #
     map (\<lambda>k. (ep, Fragment i k (Some (cs ! k)))) [0..<length cs]"

definition part :: "byte list list \<Rightarrow> bool \<Rightarrow> nat set \<Rightarrow> partial_message" where
  "part cs b F =
     (if b then Some (length cs, length (concat cs)) else None,
      \<lambda>k. if k \<in> F then Some (cs ! k) else None)"

lemma part_nothing: "part cs False {} = nothing"
  by (simp add: part_def nothing_def)

lemma check_complete_part:
  assumes "F \<subseteq> {..<length cs}"
  shows "check_complete (part cs b F) =
    (if b \<and> F = {..<length cs} then ((Some (concat cs), OK), nothing) else ((None, OK), part cs b F))"
proof (cases b)
  case True
  have "list_all (\<lambda>k. snd (part cs b F) k \<noteq> None) [0..<length cs] \<longleftrightarrow> F = {..<length cs}"
    using assms by (auto simp: part_def list_all_iff)
  moreover have "map (\<lambda>k. the (snd (part cs b {..<length cs}) k)) [0..<length cs] = cs"
    by (rule nth_equalityI) (auto simp: part_def)
  ultimately show ?thesis using True by (auto simp: part_def Let_def)
qed (simp add: part_def)

lemma distinct_message_events: "distinct (message_events ep i cs)"
  by (auto simp: message_events_def distinct_map inj_on_def)

text \<open>
  The rest of the datagrams of one message, in any order: all but the last one are stored
  silently, the last one hands out the message.
\<close>

lemma rest_of_message:
  assumes "F \<subseteq> {..<length cs}" "length cs < 2 ^ 32" "distinct es" "es \<noteq> []"
    and "set es = (if b then {} else {(ep, Info i (length cs) (length (concat cs)))}) \<union>
      (\<lambda>k. (ep, Fragment i k (Some (cs ! k)))) ` ({..<length cs} - F)"
    and "st (ep, i) = part cs b F"
  shows "fst (spec_run es st) =
      replicate (length es - 1) (ep, None, OK) @ [(ep, Some (concat cs), OK)] \<and>
    snd (spec_run es st) (ep, i) = nothing \<and> safe_run es st"
  using assms
proof (induction es arbitrary: st b F)
  case (Cons e es)
  let ?rest = "\<lambda>b F. (if b then {} else {(ep, Info i (length cs) (length (concat cs)))}) \<union>
      (\<lambda>k. (ep, Fragment i k (Some (cs ! k)))) ` ({..<length cs} - F)"
  have step: ?case
    if F': "F' \<subseteq> {..<length cs}" and es: "set es = ?rest b' F'"
      and r: "\<And>p. e = (ep, p) \<Longrightarrow> spec_receive ep p st =
        (case check_complete (part cs b' F') of (v, q) \<Rightarrow> (v, st((ep, i) := q)))"
      and t: "\<And>p. e = (ep, p) \<Longrightarrow> \<not> spec_truncating ep p st" for b' F'
  proof -
    obtain p where e: "e = (ep, p)" using Cons.prems(5) by (auto split: if_splits)
    have end_iff: "es = [] \<longleftrightarrow> b' \<and> F' = {..<length cs}"
      using es F' by (auto simp flip: set_empty split: if_splits)
    show ?thesis
    proof (cases "es = []")
      case True
      with end_iff check_complete_part [OF F', of b'] r [OF e] t [OF e] show ?thesis by (simp add: e)
    next
      case False
      with end_iff check_complete_part [OF F', of b'] r [OF e] have
        r': "spec_receive ep p st = ((None, OK), st((ep, i) := part cs b' F'))" by auto
      have "length es = Suc (length es - 1)" using False by simp
      then have rep: "replicate (length es) x = x # replicate (length es - 1) x" for x :: "'a \<times> verdict"
        by (metis replicate_Suc)
      from Cons.IH [OF F' Cons.prems(2) _ False es, of "st((ep, i) := part cs b' F')"] Cons.prems(3)
      show ?thesis
        using t [OF e] by (simp add: e r' split_beta rep del: fun_upd_apply) (simp add: rep)
    qed
  qed
  have rest: "set es = ?rest b F - {e}"
    using Cons.prems(3) by (simp only: Cons.prems(5) [symmetric]) auto
  from Cons.prems(5) have "e \<in> ?rest b F" by (metis list.set_intros(1))
  then consider (info) "e = (ep, Info i (length cs) (length (concat cs)))" "\<not> b"
    | (fragment) k where "e = (ep, Fragment i k (Some (cs ! k)))" "k < length cs" "k \<notin> F"
    by (auto split: if_splits)
  then show ?case
  proof cases
    case info
    show ?thesis
    proof (rule step [of F True])
      show "set es = ?rest True F"
        unfolding rest using info by auto
      show "F \<subseteq> {..<length cs}" by (rule Cons.prems(1))
      show "spec_receive ep p st =
        (case check_complete (part cs True F) of (v, q) \<Rightarrow> (v, st((ep, i) := q)))" if "e = (ep, p)" for p
      proof -
        from that info have p: "p = Info i (length cs) (length (concat cs))" by simp
        show ?thesis using info(2) Cons.prems(6)
          by (simp add: p part_def at_key_def del: check_complete.simps)
      qed
      show "\<not> spec_truncating ep p st" if "e = (ep, p)" for p
      proof -
        have "snd (st (ep, i)) k = None" if "length cs \<le> k" for k
          using Cons.prems(1) that by (auto simp: Cons.prems(6) part_def)
        then show ?thesis using that info by auto
      qed
    qed
  next
    case (fragment k)
    show ?thesis
    proof (rule step [of "insert k F" b])
      show "set es = ?rest b (insert k F)"
        unfolding rest using fragment by auto
      show "spec_receive ep p st =
        (case check_complete (part cs b (insert k F)) of (v, q) \<Rightarrow> (v, st((ep, i) := q)))"
        if "e = (ep, p)" for p
      proof -
        have "(\<lambda>j. if j \<in> F then Some (cs ! j) else None)(k \<mapsto> cs ! k) =
            (\<lambda>j. if j = k \<or> j \<in> F then Some (cs ! j) else None)" by auto
        with that fragment Cons.prems(2,6) show ?thesis
          by (auto simp: part_def at_key_def)
      qed
      show "insert k F \<subseteq> {..<length cs}" using Cons.prems(1) fragment(2) by simp
      show "\<not> spec_truncating ep p st" if "e = (ep, p)" for p
        using that fragment(1) by auto
    qed
  qed
qed simp

lemma message_delivered:
  assumes "mset es = mset (message_events ep i cs)" "length cs < 2 ^ 32" "st (ep, i) = nothing"
  shows "run_verdicts es st =
      replicate_mset (length cs) (ep, None, OK) + {#(ep, Some (concat cs), OK)#} \<and>
    snd (spec_run es st) (ep, i) = nothing \<and> safe_run es st"
proof -
  have len: "length es = Suc (length cs)"
    using mset_eq_length [OF assms(1)] by (simp add: message_events_def)
  have "set es = set (message_events ep i cs)" using assms(1) by (rule mset_eq_setD)
  moreover have "distinct es"
    using assms(1) distinct_message_events [of ep i cs] by (metis mset_eq_imp_distinct_iff)
  moreover have "es \<noteq> []" using len by auto
  ultimately show ?thesis
    using rest_of_message [of "{}" cs es False ep i st] assms(2,3) len
    by (auto simp: message_events_def part_nothing atLeast0LessThan)
qed

section \<open>Many messages\<close>

type_synonym 'ep fragmented_message = "'ep \<times> u32 \<times> byte list list"

fun msg_key :: "'ep fragmented_message \<Rightarrow> 'ep \<times> u32" where
  "msg_key (ep, i, cs) = (ep, i)"

fun msg_events :: "'ep fragmented_message \<Rightarrow> 'ep event list" where
  "msg_events (ep, i, cs) = message_events ep i cs"

fun msg_verdicts :: "'ep fragmented_message \<Rightarrow> ('ep \<times> verdict) multiset" where
  "msg_verdicts (ep, i, cs) =
     replicate_mset (length cs) (ep, None, OK) + {#(ep, Some (concat cs), OK)#}"

lemma msg_events_key: "e \<in> set (msg_events msg) \<Longrightarrow> event_key e = Some (msg_key msg)"
  by (cases msg) (auto simp: message_events_def)

lemma messages_delivered:
  assumes "distinct (map msg_key ms)" "\<And>ep i cs. (ep, i, cs) \<in> set ms \<Longrightarrow> length cs < 2 ^ 32"
    and "mset es = mset (concat (map msg_events ms))" "\<And>msg. msg \<in> set ms \<Longrightarrow> st (msg_key msg) = nothing"
  shows "run_verdicts es st = sum_list (map msg_verdicts ms) \<and> safe_run es st \<and>
    (\<forall>k. snd (spec_run es st) k = (if k \<in> set (map msg_key ms) then nothing else st k))"
  using assms
proof (induction ms arbitrary: es)
  case (Cons msg ms)
  obtain ep i cs where msg: "msg = (ep, i, cs)" by (metis prod_cases3)
  let ?k = "(ep, i)"
  have other: "\<not> at ?k e" if "e \<in> set (concat (map msg_events ms))" for e
  proof -
    from that obtain msg' where m: "msg' \<in> set ms" "e \<in> set (msg_events msg')" by auto
    from m(1) have "msg_key msg' \<in> set (map msg_key ms)" by simp
    moreover have "?k \<notin> set (map msg_key ms)" using Cons.prems(1) by (simp add: msg)
    ultimately have "msg_key msg' \<noteq> ?k" by metis
    with msg_events_key [OF m(2)] show ?thesis by simp
  qed
  have own: "at ?k e" if "e \<in> set (msg_events msg)" for e
    using msg_events_key [OF that] by (simp add: msg)
  have m: "mset es = mset (msg_events msg) + mset (concat (map msg_events ms))"
    using Cons.prems(3) by simp
  have "mset (filter (at ?k) es) = mset (filter (at ?k) (msg_events msg)) +
      mset (filter (at ?k) (concat (map msg_events ms)))"
    using m by (metis filter_union_mset mset_filter)
  also have "\<dots> = mset (message_events ep i cs)"
    using other own by (simp add: filter_True filter_False msg)
  finally have a: "mset (filter (at ?k) es) = mset (message_events ep i cs)" .
  have "mset (filter (\<lambda>e. \<not> at ?k e) es) = mset (filter (\<lambda>e. \<not> at ?k e) (msg_events msg)) +
      mset (filter (\<lambda>e. \<not> at ?k e) (concat (map msg_events ms)))"
    using m by (metis filter_union_mset mset_filter)
  also have "\<dots> = mset (concat (map msg_events ms))"
    using other own by (simp add: filter_True filter_False)
  finally have b: "mset (filter (\<lambda>e. \<not> at ?k e) es) = mset (concat (map msg_events ms))" .
  have st: "st ?k = nothing" using Cons.prems(4) [of msg] by (simp add: msg)
  have "run_verdicts (filter (\<lambda>e. \<not> at ?k e) es) st = sum_list (map msg_verdicts ms) \<and>
      safe_run (filter (\<lambda>e. \<not> at ?k e) es) st \<and>
      (\<forall>k. snd (spec_run (filter (\<lambda>e. \<not> at ?k e) es) st) k =
        (if k \<in> set (map msg_key ms) then nothing else st k))"
    by (rule Cons.IH) (use Cons.prems b in \<open>auto simp: msg\<close>)
  moreover have "length cs < 2 ^ 32" using Cons.prems(2) [of ep i cs] by (simp add: msg)
  then have "run_verdicts (filter (at ?k) es) st = msg_verdicts msg \<and>
      snd (spec_run (filter (at ?k) es) st) ?k = nothing \<and> safe_run (filter (at ?k) es) st"
    using message_delivered [of "filter (at ?k) es" ep i cs st] a st by (simp add: msg)
  ultimately show ?case
    using run_split [of st ?k st st es] by (simp add: msg del: split_paired_All) metis
next
  case Nil
  then show ?case by simp
qed

text \<open>Datagrams that are messages of their own.\<close>

fun whole_payload :: "parsed \<Rightarrow> byte list" where
  "whole_payload (Whole (Some p)) = p"
| "whole_payload _ = []"

lemma run_whole:
  assumes "\<And>e. e \<in> set es \<Longrightarrow> event_key e = None \<Longrightarrow> snd e = Whole (Some (whole_payload (snd e)))"
  shows "run_verdicts es st = run_verdicts (filter (\<lambda>e. event_key e \<noteq> None) es) st +
      mset (map (\<lambda>(ep, p). (ep, Some (whole_payload p), OK)) (filter (\<lambda>e. event_key e = None) es)) \<and>
    (safe_run es st \<longleftrightarrow> safe_run (filter (\<lambda>e. event_key e \<noteq> None) es) st) \<and>
    snd (spec_run es st) = snd (spec_run (filter (\<lambda>e. event_key e \<noteq> None) es) st)"
  using assms
proof (induction es arbitrary: st)
  case (Cons e es)
  obtain ep p where e: "e = (ep, p)" by (cases e)
  show ?case
  proof (cases "event_key e")
    case None
    with Cons.prems [of e] obtain q where p: "p = Whole (Some q)" by (auto simp: e)
    from Cons.IH [of st] Cons.prems show ?thesis by (simp add: e p split_beta)
  next
    case (Some k)
    from Cons.IH [of "snd (spec_receive ep p st)"] Cons.prems Some show ?thesis
      by (simp add: e split_beta)
  qed
qed simp

section \<open>From the builder to the receiver\<close>

text \<open>One call of the builder: the arguments, and what it puts on the wire.\<close>

record sending =
  s_host :: host
  s_memory :: memory
  s_buffers :: "const_buffer list"
  s_max_size :: nat
  s_magic :: magic
  s_clock :: int
  s_ids :: id_state

definition valid_sending :: "sending \<Rightarrow> bool" where
  "valid_sending s \<longleftrightarrow> builder_input (s_memory s) (s_buffers s) (s_max_size s)"

definition sent_message :: "sending \<Rightarrow> byte list" where
  "sent_message s = message_bytes (s_memory s) (s_buffers s)"

definition sent_id :: "sending \<Rightarrow> u32" where
  "sent_id s = fst (next_message_id (s_clock s) (s_ids s))"

definition fragmented :: "sending \<Rightarrow> bool" where
  "fragmented s \<longleftrightarrow> s_max_size s < length (sent_message s) + sizeof_Header"

definition sent_datagrams :: "sending \<Rightarrow> byte list list" where
  "sent_datagrams s =
     (case create_datagram_list (s_host s) (s_buffers s) (s_max_size s) (s_magic s) (s_clock s) (s_ids s) of
        Some (Inr (dl, ids)) \<Rightarrow> map (datagram_bytes (s_memory s)) dl
      | _ \<Rightarrow> [])"

definition sent_chunks :: "sending \<Rightarrow> byte list list" where
  "sent_chunks s = chunks (s_max_size s - sizeof_Header) (sent_message s)"

definition sent_events :: "'ep \<Rightarrow> sending \<Rightarrow> 'ep event list" where
  "sent_events ep s =
     (if fragmented s then message_events ep (sent_id s) (sent_chunks s)
      else [(ep, Whole (Some (sent_message s)))])"

lemma sent_datagrams_wire:
  "valid_sending s \<Longrightarrow>
     sent_datagrams s = wire_datagrams (s_magic s) (sent_id s) (s_max_size s) (sent_message s)"
  using create_datagram_list_spec [of "s_memory s" "s_buffers s" "s_max_size s" "s_host s" "s_magic s"
      "s_clock s" "s_ids s"]
  by (auto simp: valid_sending_def sent_datagrams_def sent_id_def sent_message_def)

lemma sending_bounds:
  assumes "valid_sending s"
  shows "sizeof_Header < s_max_size s"
    and "length (sent_message s) + (s_max_size s - sizeof_Header) \<le> 2 ^ 32"
  using assms by (auto simp: valid_sending_def builder_input_def sent_message_def length_message)

lemma length_concat_member: "c \<in> set cs \<Longrightarrow> length c \<le> length (concat cs)"
  by (induction cs) auto

lemma sent_chunk_bounds:
  assumes "valid_sending s"
  shows "concat (sent_chunks s) = sent_message s" and "length (sent_chunks s) < 2 ^ 32"
    and "c \<in> set (sent_chunks s) \<Longrightarrow> sizeof_Header + length c < 2 ^ 32"
proof -
  let ?p = "s_max_size s - sizeof_Header"
  note b = sending_bounds [OF assms]
  show c: "concat (sent_chunks s) = sent_message s" using b by (simp add: sent_chunks_def)
  have "length (sent_chunks s) = (length (sent_message s) + (?p - 1)) div ?p"
    using b by (simp add: sent_chunks_def length_chunks)
  also have "\<dots> \<le> length (sent_message s) + (?p - 1)" by (rule div_le_dividend)
  also have "\<dots> < 2 ^ 32" using b by simp
  finally show "length (sent_chunks s) < 2 ^ 32" .
  assume m: "c \<in> set (sent_chunks s)"
  then have "length c \<le> ?p" using chunks_bounds [of c ?p "sent_message s"] by (simp add: sent_chunks_def)
  moreover have "length c \<le> length (sent_message s)"
    using length_concat_member [OF m] by (simp add: c)
  ultimately show "sizeof_Header + length c < 2 ^ 32" using b(2) by (simp add: layout)
qed

lemma parse_sent:
  assumes "valid_sending s"
  shows "map (\<lambda>d. (ep, parse h d)) (sent_datagrams s) = sent_events ep s"
    and "d \<in> set (sent_datagrams s) \<Longrightarrow> length d < 2 ^ 32"
proof -
  let ?cs = "sent_chunks s" and ?msg = "sent_message s"
  note b = sending_bounds [OF assms] and c = sent_chunk_bounds [OF assms]
  have frag: "parse h (wire_fragment (s_magic s) (sent_id s) k (?cs ! k)) =
      Fragment (sent_id s) k (Some (?cs ! k))" if "k < length ?cs" for k
    using that c(2) c(3) [of "?cs ! k"]
    by (simp add: wire_fragment_def wire unat_of_nat_u32)
  have info: "parse h (wire_info (s_magic s) (sent_id s) (length ?cs) (length ?msg)) =
      Info (sent_id s) (length ?cs) (length ?msg)"
    using b c(2) by (simp add: wire_info_def wire unat_of_nat_u32)
  have whole: "parse h (wire_non_fragmented (s_magic s) ?msg) = Whole (Some ?msg)"
    and "length (wire_non_fragmented (s_magic s) ?msg) < 2 ^ 32" if "\<not> fragmented s"
    using that b by (simp_all add: wire_non_fragmented_def wire fragmented_def layout)
  note w = sent_datagrams_wire [OF assms] wire_datagrams_def wire_fragments_def Let_def
    sent_chunks_def [symmetric]
  show "map (\<lambda>d. (ep, parse h d)) (sent_datagrams s) = sent_events ep s"
    using frag info whole c(1)
    by (auto simp: w fragmented_def sent_events_def message_events_def)
  show "length d < 2 ^ 32" if "d \<in> set (sent_datagrams s)"
  proof (cases "fragmented s")
    case False
    with that \<open>\<not> fragmented s \<Longrightarrow> length _ < _\<close> show ?thesis by (auto simp: w fragmented_def)
  next
    case True
    with that consider "d = wire_info (s_magic s) (sent_id s) (length ?cs) (length ?msg)"
      | k where "k < length ?cs" "d = wire_fragment (s_magic s) (sent_id s) k (?cs ! k)"
      by (auto simp: w fragmented_def)
    then show ?thesis
    proof cases
      case (2 k)
      with c(3) [of "?cs ! k"] show ?thesis by simp
    qed (simp add: wire_info_def layout)
  qed
qed


text \<open>What the user of the receiver gets.\<close>

fun delivered :: "('ep \<times> OwningBuffer option \<times> Error) list \<Rightarrow> ('ep \<times> byte list) list" where
  "delivered [] = []"
| "delivered ((ep, None, err) # rs) = delivered rs"
| "delivered ((ep, Some b, err) # rs) = (ep, buffer_bytes b) # delivered rs"

definition messages_of :: "('ep \<times> verdict) multiset \<Rightarrow> ('ep \<times> byte list) multiset" where
  "messages_of V = image_mset (\<lambda>(ep, v). (ep, the (fst v))) (filter_mset (\<lambda>(ep, v). fst v \<noteq> None) V)"

lemma messages_of_simps [simp]:
  "messages_of {#} = {#}"
  "messages_of (add_mset (ep, None, c) V) = messages_of V"
  "messages_of (add_mset (ep, Some m, c) V) = add_mset (ep, m) (messages_of V)"
  "messages_of (V + W) = messages_of V + messages_of W"
  "messages_of (replicate_mset n (ep, None, c)) = {#}"
  by (simp_all add: messages_of_def)

lemma delivered_messages:
  "mset (delivered rs) =
     messages_of (mset (map (\<lambda>(ep, b, e). (ep, map_option buffer_bytes b, err_code e)) rs))"
  by (induction rs rule: delivered.induct) simp_all

type_synonym 'ep traffic = "('ep \<times> sending) list"

definition fragmented_messages :: "'ep traffic \<Rightarrow> 'ep fragmented_message list" where
  "fragmented_messages sends =
     map (\<lambda>(ep, s). (ep, sent_id s, sent_chunks s)) (filter (\<lambda>(ep, s). fragmented s) sends)"

definition whole_messages :: "'ep traffic \<Rightarrow> ('ep \<times> byte list) list" where
  "whole_messages sends =
     map (\<lambda>(ep, s). (ep, sent_message s)) (filter (\<lambda>(ep, s). \<not> fragmented s) sends)"

lemma traffic_keyed:
  "filter (\<lambda>e. event_key e \<noteq> None) (concat (map (\<lambda>(ep, s). sent_events ep s) sends)) =
     concat (map msg_events (fragmented_messages sends))"
proof (induction sends)
  case (Cons x sends)
  obtain ep s where x: "x = (ep, s)" by (cases x)
  have "filter (\<lambda>e. event_key e \<noteq> None) (message_events ep i cs) = message_events ep i cs" for i cs
    using msg_events_key [of _ "(ep, i, cs)"] by (simp add: filter_id_conv)
  with Cons show ?case by (simp add: x fragmented_messages_def sent_events_def)
qed (simp add: fragmented_messages_def)

lemma traffic_whole:
  "filter (\<lambda>e. event_key e = None) (concat (map (\<lambda>(ep, s). sent_events ep s) sends)) =
     map (\<lambda>(ep, m). (ep, Whole (Some m))) (whole_messages sends)"
proof (induction sends)
  case (Cons x sends)
  obtain ep s where x: "x = (ep, s)" by (cases x)
  have "filter (\<lambda>e. event_key e = None) (message_events ep i cs) = []" for i cs
    using msg_events_key [of _ "(ep, i, cs)"] by (simp add: filter_empty_conv)
  with Cons show ?case by (simp add: x whole_messages_def sent_events_def)
qed (simp add: whole_messages_def)

lemma split_traffic:
  assumes "\<forall>(ep, s) \<in> set sends. valid_sending s"
  shows "mset (map (\<lambda>(ep, i, cs). (ep, concat cs)) (fragmented_messages sends)) +
      mset (whole_messages sends) = mset (map (\<lambda>(ep, s). (ep, sent_message s)) sends)"
  using assms
proof (induction sends)
  case (Cons x sends)
  obtain ep s where x: "x = (ep, s)" by (cases x)
  have "concat (sent_chunks s) = sent_message s"
    using Cons.prems sent_chunk_bounds(1) by (simp add: x)
  moreover have "mset (map (\<lambda>(ep, i, cs). (ep, concat cs)) (fragmented_messages sends)) +
      mset (whole_messages sends) = mset (map (\<lambda>(ep, s). (ep, sent_message s)) sends)"
    by (rule Cons.IH) (use Cons.prems in auto)
  ultimately show ?case
    by (simp add: x fragmented_messages_def whole_messages_def)
qed (simp add: fragmented_messages_def whole_messages_def)

lemma messages_of_fragmented:
  "messages_of (sum_list (map msg_verdicts ms)) = mset (map (\<lambda>(ep, i, cs). (ep, concat cs)) ms)"
proof (induction ms)
  case (Cons m ms)
  then show ?case by (cases m) simp
qed simp

lemma messages_of_whole:
  "messages_of (mset (map (\<lambda>(ep, m). (ep, Some m, OK)) ms)) = mset ms"
  by (induction ms) auto

lemma verdicts_ok:
  "x \<in># sum_list (map msg_verdicts ms) \<Longrightarrow> snd (snd x) = OK"
proof (induction ms)
  case (Cons m ms)
  then show ?case by (cases m) (auto split: if_splits)
qed simp

lemma abs_map_empty: "abs_map Map.empty = (\<lambda>_. nothing)"
  by (simp add: abs_map_def)

text \<open>What the receiver sees of the traffic, and the run on it.\<close>

lemma traffic_events:
  assumes "\<forall>(ep, s) \<in> set sends. valid_sending s"
    and "mset (map (\<lambda>(now, d, ep). (ep, d)) ds) =
      mset (concat (map (\<lambda>(ep, s). map (Pair ep) (sent_datagrams s)) sends))"
  shows "mset (map (\<lambda>(now, d, ep). (ep, parse h d)) ds) =
      mset (concat (map (\<lambda>(ep, s). sent_events ep s) sends))"
    and "\<forall>(now, buffer, ep) \<in> set ds. length buffer < 2 ^ 32"
proof -
  have valid: "valid_sending s" if "(ep, s) \<in> set sends" for ep s using assms(1) that by auto
  have "mset (map (\<lambda>(now, d, ep). (ep, parse h d)) ds) =
      image_mset (\<lambda>(ep, d). (ep, parse h d)) (mset (map (\<lambda>(now, d, ep). (ep, d)) ds))"
    by (simp add: image_mset.compositionality comp_def case_prod_unfold)
  also have "\<dots> = mset (concat (map (\<lambda>(ep, s). map (\<lambda>d. (ep, parse h d)) (sent_datagrams s)) sends))"
    unfolding assms(2) mset_map [symmetric] by (simp add: map_concat case_prod_unfold comp_def)
  also have "map (\<lambda>(ep, s). map (\<lambda>d. (ep, parse h d)) (sent_datagrams s)) sends =
      map (\<lambda>(ep, s). sent_events ep s) sends"
    using parse_sent(1) [OF valid] by (intro map_cong) auto
  finally show "mset (map (\<lambda>(now, d, ep). (ep, parse h d)) ds) =
      mset (concat (map (\<lambda>(ep, s). sent_events ep s) sends))" .
  show "\<forall>(now, buffer, ep) \<in> set ds. length buffer < 2 ^ 32"
  proof safe
    fix now d ep assume "(now, d, ep) \<in> set ds"
    then have "(ep, d) \<in> set (map (\<lambda>(now, d, ep). (ep, d)) ds)" by force
    then have "(ep, d) \<in> set (concat (map (\<lambda>(ep, s). map (Pair ep) (sent_datagrams s)) sends))"
      using mset_eq_setD [OF assms(2)] by simp
    then obtain s where "(ep, s) \<in> set sends" "d \<in> set (sent_datagrams s)" by auto
    then show "length d < 2 ^ 32" using parse_sent(2) [OF valid] by blast
  qed
qed

definition traffic_verdicts :: "'ep traffic \<Rightarrow> ('ep \<times> verdict) multiset" where
  "traffic_verdicts sends = sum_list (map msg_verdicts (fragmented_messages sends)) +
     mset (map (\<lambda>(ep, m). (ep, Some m, OK)) (whole_messages sends))"

lemma traffic_run:
  assumes all: "\<forall>(ep, s) \<in> set sends. valid_sending s"
    and keys: "distinct (map (\<lambda>(ep, s). (ep, sent_id s)) (filter (\<lambda>(ep, s). fragmented s) sends))"
    and ev: "mset es = mset (concat (map (\<lambda>(ep, s). sent_events ep s) sends))"
  shows "run_verdicts es (\<lambda>_. nothing) = traffic_verdicts sends" and "safe_run es (\<lambda>_. nothing)"
    and "snd (spec_run es (\<lambda>_. nothing)) = (\<lambda>_. nothing)"
proof -
  have valid: "valid_sending s" if "(ep, s) \<in> set sends" for ep s using all that by auto
  let ?st = "\<lambda>_. nothing :: partial_message" and ?ms = "fragmented_messages sends"
  have keyed: "mset (filter (\<lambda>e. event_key e \<noteq> None) es) = mset (concat (map msg_events ?ms))"
    unfolding traffic_keyed [symmetric] using ev by (metis mset_filter)
  have unkeyed: "mset (filter (\<lambda>e. event_key e = None) es) =
      mset (map (\<lambda>(ep, m). (ep, Whole (Some m))) (whole_messages sends))"
    unfolding traffic_whole [symmetric] using ev by (metis mset_filter)
  have whole: "snd e = Whole (Some (whole_payload (snd e)))"
    if "e \<in> set es" "event_key e = None" for e
  proof -
    have "e \<in> set (filter (\<lambda>e. event_key e = None) es)" using that by simp
    with mset_eq_setD [OF unkeyed] show ?thesis by auto
  qed
  have "map msg_key ?ms = map (\<lambda>(ep, s). (ep, sent_id s)) (filter (\<lambda>(ep, s). fragmented s) sends)"
    by (simp add: fragmented_messages_def case_prod_unfold)
  then have "distinct (map msg_key ?ms)" using keys by simp
  then have run: "run_verdicts (filter (\<lambda>e. event_key e \<noteq> None) es) ?st = sum_list (map msg_verdicts ?ms) \<and>
      safe_run (filter (\<lambda>e. event_key e \<noteq> None) es) ?st \<and>
      (\<forall>k. snd (spec_run (filter (\<lambda>e. event_key e \<noteq> None) es) ?st) k =
        (if k \<in> set (map msg_key ?ms) then nothing else nothing))"
    by (rule messages_delivered [OF _ _ keyed])
      (use sent_chunk_bounds(2) [OF valid] in \<open>auto simp: fragmented_messages_def\<close>)
  have W: "mset (map (\<lambda>(ep, p). (ep, Some (whole_payload p), OK)) (filter (\<lambda>e. event_key e = None) es)) =
      mset (map (\<lambda>(ep, m). (ep, Some m, OK)) (whole_messages sends))"
    unfolding mset_map unkeyed by (simp add: image_mset.compositionality comp_def case_prod_unfold)
  from run_whole [of es ?st, OF whole] run W
  show "run_verdicts es ?st = traffic_verdicts sends" and "safe_run es ?st"
    and "snd (spec_run es ?st) = ?st"
    by (auto simp: traffic_verdicts_def)
qed

lemma traffic_verdicts_ok: "x \<in># traffic_verdicts sends \<Longrightarrow> snd (snd x) = OK"
  unfolding traffic_verdicts_def union_iff by (elim disjE) (rule verdicts_ok, assumption, auto)

text \<open>
  C4: what is sent is delivered. Take any number of calls of the builder, on hosts of any byte
  order, with valid buffers, where two fragmented messages of one sender have different ids. If
  a receiver gets all their datagrams, in any order and interleaved in any way, then every
  message is handed out exactly once and unchanged, with its sender, no datagram is reported as
  an error, no access goes wrong, and no fragment is left behind.
\<close>

theorem message_delivery:
  assumes "\<forall>(ep, s) \<in> set sends. valid_sending s"
    and "distinct (map (\<lambda>(ep, s). (ep, sent_id s)) (filter (\<lambda>(ep, s). fragmented s) sends))"
    and "mset (map (\<lambda>(now, d, ep). (ep, d)) ds) =
      mset (concat (map (\<lambda>(ep, s). map (Pair ep) (sent_datagrams s)) sends))"
  shows "\<exists>rs ps'. receive_all h pool ds err Map.empty = Inr (rs, ps') \<and>
    mset (delivered rs) = mset (map (\<lambda>(ep, s). (ep, sent_message s)) sends) \<and>
    (\<forall>(ep, b, e) \<in> set rs. err_code e = OK) \<and> abs_map ps' = (\<lambda>_. nothing)"
proof -
  let ?ev = "map (\<lambda>(now, d, ep). (ep, parse h d)) ds"
  note ev = traffic_events(1) [where h = h, OF assms(1) assms(3)]
  have len: "\<forall>(now, buffer, ep) \<in> set ds. length buffer < 2 ^ 32"
    by (rule traffic_events(2) [OF assms(1) assms(3)])
  note run = traffic_run [OF assms(1) assms(2) ev]
  from receive_all_refines [OF all_consistent_empty len, of h pool err] run(2)
  obtain rs ps' where r: "receive_all h pool ds err Map.empty = Inr (rs, ps')"
    and s: "spec_run ?ev (\<lambda>_. nothing) =
      (map (\<lambda>(ep, b, e). (ep, map_option buffer_bytes b, err_code e)) rs, abs_map ps')"
    by (auto simp: abs_map_empty)
  let ?V = "mset (map (\<lambda>(ep, b, e). (ep, map_option buffer_bytes b, err_code e)) rs)"
  have V: "?V = traffic_verdicts sends" using run(1) s by simp
  have "mset (delivered rs) = mset (map (\<lambda>(ep, s). (ep, sent_message s)) sends)"
    unfolding delivered_messages V traffic_verdicts_def messages_of_simps messages_of_fragmented
      messages_of_whole using split_traffic [OF assms(1)] .
  moreover have "\<forall>x \<in># ?V. snd (snd x) = OK" unfolding V using traffic_verdicts_ok by blast
  then have "\<forall>(ep, b, e) \<in> set rs. err_code e = OK" by auto
  moreover have "abs_map ps' = (\<lambda>_. nothing)" using run(3) s by simp
  ultimately show ?thesis using r by blast
qed

text \<open>The three datagrams of a small message, received in reverse order.\<close>

definition demo_sending :: sending where
  "demo_sending =
     \<lparr>s_host = Big_Endian, s_memory = demo_memory, s_buffers = demo_buffers, s_max_size = 30,
      s_magic = (1, 2, 3, 4), s_clock = 5, s_ids = None\<rparr>"

lemma demo_valid: "valid_sending demo_sending"
  using demo_input by (simp add: valid_sending_def demo_sending_def)

lemma demo_sent: "sent_message demo_sending = [2, 3, 4, 5, 6, 7, 8, 9]"
  using demo_message by (simp add: sent_message_def demo_sending_def)

theorem message_delivery_witness:
  "\<exists>rs ps'. receive_all Little_Endian (\<lambda>_. 0)
      (map (\<lambda>d. (7, d, ''sender'')) (rev (sent_datagrams demo_sending))) (error_of_code GENERIC_ERROR)
      Map.empty = Inr (rs, ps') \<and>
    length (sent_datagrams demo_sending) = 3 \<and>
    delivered rs = [(''sender'', [2, 3, 4, 5, 6, 7, 8, 9])]"
proof -
  let ?ds = "map (\<lambda>d. (7, d, ''sender'')) (rev (sent_datagrams demo_sending))"
  have "mset (map (\<lambda>(now, d, ep). (ep, d)) ?ds) =
      mset (concat (map (\<lambda>(ep, s). map (Pair ep) (sent_datagrams s)) [(''sender'', demo_sending)]))"
    by (simp add: comp_def)
  moreover have "distinct (map (\<lambda>(ep, s). (ep, sent_id s))
      (filter (\<lambda>(ep, s). fragmented s) [(''sender'', demo_sending)]))" by simp
  moreover note message_delivery [of "[(''sender'', demo_sending)]" ?ds Little_Endian "\<lambda>_. 0" "error_of_code GENERIC_ERROR"]
  ultimately obtain rs ps' where "receive_all Little_Endian (\<lambda>_. 0) ?ds (error_of_code GENERIC_ERROR)
      Map.empty = Inr (rs, ps')" "mset (delivered rs) = {#(''sender'', [2, 3, 4, 5, 6, 7, 8, 9])#}"
    using demo_valid by (auto simp: demo_sent)
  moreover have "length (sent_datagrams demo_sending) = 3"
    using sent_datagrams_wire [OF demo_valid] demo_sent
    by (simp add: demo_sending_def wire_datagrams_def wire_fragments_def layout chunks_step Let_def)
  ultimately show ?thesis by auto
qed


end
