(* ===== verification/Socket.thy ===== *)
theory Socket
  imports Delivery
begin

text \<open>
  The socket on top of asio (src/ecaludp/include/ecaludp/socket.h and src/ecaludp/src/socket.cpp).
  The operating system is a parameter: what the n-th call of asio's \<^verbatim>\<open>send_to\<close> answers,
  and the sequence of results of its \<^verbatim>\<open>receive_from\<close>. An asio error code is an
  option, \<open>None\<close> standing for success. A received datagram comes with the two clock readings the
  code makes while it handles it: one when old packages are dropped, one when a fragment is stored.
\<close>

section \<open>State and settings\<close>

record 'ep Socket =
  reassembly_v5 :: "'ep fragmented_package_map"
  magic_header_bytes :: magic
  max_udp_datagram_size :: nat
  max_reassembly_age :: int

text \<open>Durations are counted in nanoseconds: five seconds.\<close>

definition new_socket :: "magic \<Rightarrow> 'ep Socket" where
  "new_socket m =
     \<lparr>reassembly_v5 = Map.empty, magic_header_bytes = m, max_udp_datagram_size = 1448,
      max_reassembly_age = 5 * 10 ^ 9\<rparr>"

definition set_max_udp_datagram_size :: "nat \<Rightarrow> 'ep Socket \<Rightarrow> 'ep Socket" where
  "set_max_udp_datagram_size n s = s\<lparr>max_udp_datagram_size := n\<rparr>"

definition get_max_udp_datagram_size :: "'ep Socket \<Rightarrow> nat" where
  "get_max_udp_datagram_size s = max_udp_datagram_size s"

definition set_max_reassembly_age :: "int \<Rightarrow> 'ep Socket \<Rightarrow> 'ep Socket" where
  "set_max_reassembly_age age s = s\<lparr>max_reassembly_age := age\<rparr>"

definition get_max_reassembly_age :: "'ep Socket \<Rightarrow> int" where
  "get_max_reassembly_age s = max_reassembly_age s"

section \<open>Sending\<close>

text \<open>
  The loop over the datagrams: \<open>answer i\<close> is what asio's \<^verbatim>\<open>send_to\<close> says to the
  datagram number \<open>i\<close>. The last component of the result are the datagrams handed to asio.
\<close>

fun send_datagrams ::
    "memory \<Rightarrow> (nat \<Rightarrow> nat \<times> 'ec option) \<Rightarrow> nat \<Rightarrow> DatagramList \<Rightarrow> nat \<Rightarrow> 'ec option \<Rightarrow>
     nat \<times> 'ec option \<times> byte list list" where
  "send_datagrams mem answer i [] sent ec = (sent, ec, [])"
| "send_datagrams mem answer i (d # ds) sent ec =
     (let (n, ec) = answer i;
          sent = add_size sent n
      in if ec \<noteq> None then (sent, ec, [datagram_bytes mem d])
         else
           (let (sent, ec, wire) = send_datagrams mem answer (i + 1) ds sent ec
            in (sent, ec, datagram_bytes mem d # wire)))"

definition send_to ::
    "host \<Rightarrow> memory \<Rightarrow> 'ep Socket \<Rightarrow> const_buffer list \<Rightarrow> (nat \<Rightarrow> nat \<times> 'ec option) \<Rightarrow> 'ec option \<Rightarrow>
     int \<Rightarrow> id_state \<Rightarrow> (fault + (nat \<times> 'ec option \<times> byte list list) \<times> id_state) option" where
  "send_to h mem s bufs answer ec clock ids =
     (case create_datagram_list h bufs (max_udp_datagram_size s) (magic_header_bytes s) clock ids of
        None \<Rightarrow> None
      | Some (Inl f) \<Rightarrow> Some (Inl f)
      | Some (Inr (dl, ids')) \<Rightarrow> Some (Inr (send_datagrams mem answer 0 dl 0 ec, ids')))"

text \<open>
  The asynchronous variant. What it does, as far as the completions of the sends have come in:
  datagrams handed to asio, and the call of the user's completion handler.
\<close>

datatype 'ec send_action = Send "byte list" | Completion_Handler "'ec option"

fun async_send_datagram_list_to ::
    "memory \<Rightarrow> DatagramList \<Rightarrow> 'ec option list \<Rightarrow> 'ec send_action list" where
  "async_send_datagram_list_to mem [] ecs = [Completion_Handler None]"
| "async_send_datagram_list_to mem (d # ds) ecs =
     Send (datagram_bytes mem d) #
     (case ecs of
        [] \<Rightarrow> []
      | ec # ecs' \<Rightarrow>
          if ec \<noteq> None then [Completion_Handler ec]
          else async_send_datagram_list_to mem ds ecs')"

definition async_send_to ::
    "host \<Rightarrow> memory \<Rightarrow> 'ep Socket \<Rightarrow> const_buffer list \<Rightarrow> 'ec option list \<Rightarrow> int \<Rightarrow> id_state \<Rightarrow>
     (fault + 'ec send_action list \<times> id_state) option" where
  "async_send_to h mem s bufs ecs clock ids =
     (case create_datagram_list h bufs (max_udp_datagram_size s) (magic_header_bytes s) clock ids of
        None \<Rightarrow> None
      | Some (Inl f) \<Rightarrow> Some (Inl f)
      | Some (Inr (dl, ids')) \<Rightarrow> Some (Inr (async_send_datagram_list_to mem dl ecs, ids')))"

section \<open>Handling a datagram\<close>

text \<open>\<^verbatim>\<open>strncmp\<close> of the C library, which stops behind a common null character.\<close>

fun strncmp :: "byte list \<Rightarrow> byte list \<Rightarrow> nat \<Rightarrow> int" where
  "strncmp (a # as) (b # bs) (Suc n) =
     (if a \<noteq> b then (if a < b then - 1 else 1) else if a = 0 then 0 else strncmp as bs n)"
| "strncmp as bs n = 0"

record clocks =
  clean_time :: int
  access_time :: int

definition socket_handle_datagram ::
    "host \<Rightarrow> (nat \<Rightarrow> byte) \<Rightarrow> 'ep Socket \<Rightarrow> clocks \<Rightarrow> byte list \<Rightarrow> 'ep \<Rightarrow> Error \<Rightarrow>
     fault + OwningBuffer option \<times> Error \<times> 'ep Socket" where
  "socket_handle_datagram h pool s t buffer ep error =
     (let s = s\<lparr>reassembly_v5 :=
                  remove_old_packages (clean_time t - max_reassembly_age s) (reassembly_v5 s)\<rparr>
      in if length buffer < sizeof_HeaderCommon
         then Inr (None,
           make_error MALFORMED_DATAGRAM
             (''Datagram too small to contain common header ('' @ to_string (length buffer) @ '' bytes)''), s)
         else if strncmp (header_magic buffer) (magic_bytes (magic_header_bytes s)) 4 \<noteq> 0
         then Inr (None, make_error MALFORMED_DATAGRAM ''Wrong magic bytes'', s)
         else
           (let version = unat (header_version buffer);
                handled =
                  (if version = 5
                   then (case handle_datagram h pool (access_time t) buffer ep error (reassembly_v5 s) of
                           Inl f \<Rightarrow> Inl f
                         | Inr (b, error, ps) \<Rightarrow> Inr (b, error, s\<lparr>reassembly_v5 := ps\<rparr>))
                   else if version = 6
                   then Inr (None, make_error UNSUPPORTED_PROTOCOL_VERSION (to_string version), s)
                   else Inr (None, make_error UNSUPPORTED_PROTOCOL_VERSION (to_string version), s))
            in (case handled of
                  Inl f \<Rightarrow> Inl f
                | Inr (b, error, s) \<Rightarrow>
                    if is_error error then Inr (None, error, s) else Inr (b, error, s))))"

section \<open>Receiving\<close>

text \<open>One return of asio's \<^verbatim>\<open>receive_from\<close>: an error, or a datagram and its sender.\<close>

datatype ('ep, 'ec) received = Receive_Error 'ec | Datagram "byte list" 'ep

text \<open>
  The outcome of a receiving call: still waiting for the next datagram, or back with a buffer (or
  the null pointer), the sender, the error code, and what asio will return next. The state of
  the socket comes with it.
\<close>

type_synonym ('ep, 'ec) inbox = "(clocks \<times> ('ep, 'ec) received) list"

datatype ('ep, 'ec, 's) receive_outcome =
    Waiting 's
  | Returned "OwningBuffer option" 'ep "'ec option" 's "('ep, 'ec) inbox"
  | Failed fault

fun receive_from ::
    "host \<Rightarrow> (nat \<Rightarrow> byte) \<Rightarrow> 'ep \<Rightarrow> 'ep Socket \<Rightarrow> 'ep \<Rightarrow> ('ep, 'ec) inbox \<Rightarrow>
     ('ep, 'ec, 'ep Socket) receive_outcome" where
  "receive_from h pool no_endpoint s sender [] = Waiting s"
| "receive_from h pool no_endpoint s sender ((t, Receive_Error ec) # rs) =
     Returned None sender (Some ec) s rs"
| "receive_from h pool no_endpoint s sender ((t, Datagram buffer ep) # rs) =
     (if length buffer = 0 \<and> ep = no_endpoint then Returned None sender None s rs
      else
        (case socket_handle_datagram h pool s t buffer ep (error_of_code GENERIC_ERROR) of
           Inl f \<Rightarrow> Failed f
         | Inr (Some b, error, s) \<Rightarrow> Returned (Some b) ep None s rs
         | Inr (None, error, s) \<Rightarrow> receive_from h pool no_endpoint s sender rs))"

text \<open>The asynchronous variant: \<open>Returned\<close> is the call of the completion handler.\<close>

fun receive_next_datagram_from ::
    "host \<Rightarrow> (nat \<Rightarrow> byte) \<Rightarrow> 'ep Socket \<Rightarrow> 'ep \<Rightarrow> ('ep, 'ec) inbox \<Rightarrow>
     ('ep, 'ec, 'ep Socket) receive_outcome" where
  "receive_next_datagram_from h pool s sender [] = Waiting s"
| "receive_next_datagram_from h pool s sender ((t, Receive_Error ec) # rs) =
     Returned None sender (Some ec) s rs"
| "receive_next_datagram_from h pool s sender ((t, Datagram buffer ep) # rs) =
     (case socket_handle_datagram h pool s t buffer ep (error_of_code GENERIC_ERROR) of
        Inl f \<Rightarrow> Failed f
      | Inr (Some b, error, s) \<Rightarrow> Returned (Some b) ep None s rs
      | Inr (None, error, s) \<Rightarrow> receive_next_datagram_from h pool s sender rs)"

definition async_receive_from ::
    "host \<Rightarrow> (nat \<Rightarrow> byte) \<Rightarrow> 'ep Socket \<Rightarrow> 'ep \<Rightarrow> ('ep, 'ec) inbox \<Rightarrow>
     ('ep, 'ec, 'ep Socket) receive_outcome" where
  "async_receive_from h pool s sender rs = receive_next_datagram_from h pool s sender rs"

section \<open>Sending, synchronously and asynchronously\<close>

text \<open>The number of datagrams asio accepts before the first error.\<close>

definition accepted :: "(nat \<Rightarrow> nat \<times> 'ec option) \<Rightarrow> nat \<Rightarrow> nat \<Rightarrow> nat" where
  "accepted answer i n = length (takeWhile (\<lambda>j. snd (answer j) = None) [i..<i + n])"

lemma accepted_0 [simp]: "accepted answer i 0 = 0"
  by (simp add: accepted_def)

lemma accepted_Suc:
  "accepted answer i (Suc n) = (if snd (answer i) = None then Suc (accepted answer (Suc i) n) else 0)"
proof -
  have "[i..<i + Suc n] = i # [Suc i..<Suc i + n]" by (simp add: upt_rec)
  then show ?thesis by (simp add: accepted_def del: upt_Suc)
qed

lemma send_datagrams_spec:
  "\<exists>sent'. send_datagrams mem answer i ds sent ec =
     (sent',
      if accepted answer i (length ds) < length ds then snd (answer (i + accepted answer i (length ds)))
      else if ds = [] then ec else None,
      map (datagram_bytes mem) (take (Suc (accepted answer i (length ds))) ds))"
proof (induction ds arbitrary: i sent ec)
  case (Cons d ds)
  obtain n e where a: "answer i = (n, e)" by (cases "answer i")
  show ?case
  proof (cases e)
    case None
    obtain sent' where "send_datagrams mem answer (Suc i) ds (add_size sent n) None =
       (sent',
        if accepted answer (Suc i) (length ds) < length ds
        then snd (answer (Suc i + accepted answer (Suc i) (length ds)))
        else if ds = [] then None else None,
        map (datagram_bytes mem) (take (Suc (accepted answer (Suc i) (length ds))) ds))"
      using Cons.IH [of "Suc i" "add_size sent n" None] by blast
    with a None show ?thesis by (simp add: accepted_Suc)
  qed (simp add: a accepted_Suc)
qed simp

lemma async_send_spec:
  "length (snd (snd (send_datagrams mem answer i ds sent None))) \<le> n \<Longrightarrow>
   async_send_datagram_list_to mem ds (map (\<lambda>j. snd (answer j)) [i..<i + n]) =
     map Send (snd (snd (send_datagrams mem answer i ds sent None))) @
     [Completion_Handler (fst (snd (send_datagrams mem answer i ds sent None)))]"
proof (induction ds arbitrary: i sent n)
  case (Cons d ds)
  obtain k e where a: "answer i = (k, e)" by (cases "answer i")
  from Cons.prems a obtain m where n: "n = Suc m" by (cases n; cases e) (simp_all add: split_beta Let_def)
  have "[i..<i + n] = i # [Suc i..<Suc i + m]" by (simp add: upt_rec n)
  with Cons.prems Cons.IH [of "Suc i" "add_size sent k" m] a n show ?case
    by (cases e) (simp_all add: split_beta Let_def del: upt_Suc)
qed simp

lemma sent_bytes:
  assumes "accepted answer i (length ds) = length ds"
    and "\<forall>j < length ds. fst (answer (i + j)) = length (datagram_bytes mem (ds ! j))"
    and "sent + length (concat (map (datagram_bytes mem) ds)) < size_t_bound"
  shows "fst (send_datagrams mem answer i ds sent ec) =
    sent + length (concat (map (datagram_bytes mem) ds))"
  using assms
proof (induction ds arbitrary: i sent ec)
  case (Cons d ds)
  have a: "answer i = (length (datagram_bytes mem d), None)"
    using Cons.prems(1) Cons.prems(2) [rule_format, of 0]
    by (cases "answer i") (auto simp: accepted_Suc split: if_splits)
  moreover have "accepted answer (Suc i) (length ds) = length ds"
    using Cons.prems(1) by (simp add: accepted_Suc split: if_splits)
  moreover have "\<forall>j < length ds. fst (answer (Suc i + j)) = length (datagram_bytes mem (ds ! j))"
    using Cons.prems(2) by (metis Suc_less_eq add_Suc_right add_Suc length_Cons nth_Cons_Suc)
  moreover have "add_size sent (length (datagram_bytes mem d)) = sent + length (datagram_bytes mem d)"
    using Cons.prems(3) by simp
  ultimately show ?case
    using Cons.IH [of "Suc i" "sent + length (datagram_bytes mem d)" None] Cons.prems(3)
    by (simp add: split_beta Let_def)
qed simp

lemma send_to_spec:
  assumes "builder_input mem bufs (max_udp_datagram_size s)"
    and "datagrams = wire_datagrams (magic_header_bytes s) (fst (next_message_id clock ids))
      (max_udp_datagram_size s) (message_bytes mem bufs)"
    and "k = accepted answer 0 (length datagrams)"
  shows "\<exists>sent ids'. send_to h mem s bufs answer ec clock ids =
      Some (Inr ((sent, if k < length datagrams then snd (answer k) else None, take (Suc k) datagrams), ids')) \<and>
    (k = length datagrams \<longrightarrow> length (concat datagrams) < size_t_bound \<longrightarrow>
      (\<forall>j < length datagrams. fst (answer j) = length (datagrams ! j)) \<longrightarrow> sent = length (concat datagrams))"
proof -
  obtain dl ids' where dl: "create_datagram_list h bufs (max_udp_datagram_size s) (magic_header_bytes s)
      clock ids = Some (Inr (dl, ids'))" and w: "map (datagram_bytes mem) dl = datagrams"
    using create_datagram_list_spec [OF assms(1)] assms(2) by metis
  have len: "length dl = length datagrams" using w by auto
  have "datagrams \<noteq> []" by (simp add: assms(2) wire_datagrams_def Let_def)
  then have ne: "dl \<noteq> []" using len by auto
  have tk: "map (datagram_bytes mem) (take (Suc k) dl) = take (Suc k) datagrams"
    by (simp only: w [symmetric] take_map)
  obtain sent where sent: "send_datagrams mem answer 0 dl 0 ec =
      (sent, if k < length datagrams then snd (answer k) else None, take (Suc k) datagrams)"
    using send_datagrams_spec [of mem answer 0 dl 0 ec]
    unfolding len assms(3) [symmetric] tk add_0_left if_not_P [OF ne]
    by blast
  have nth: "datagram_bytes mem (dl ! j) = datagrams ! j" if "j < length datagrams" for j
    using nth_map [of j dl "datagram_bytes mem"] that len w by simp
  have "sent = length (concat datagrams)"
    if "k = length datagrams" "length (concat datagrams) < size_t_bound"
      "\<forall>j < length datagrams. fst (answer j) = length (datagrams ! j)"
  proof -
    have "fst (send_datagrams mem answer 0 dl 0 ec) = 0 + length (concat (map (datagram_bytes mem) dl))"
    proof (rule sent_bytes)
      show "accepted answer 0 (length dl) = length dl" using that(1) assms(3) len by simp
      show "\<forall>j < length dl. fst (answer (0 + j)) = length (datagram_bytes mem (dl ! j))"
        using that(3) nth len by simp
      show "0 + length (concat (map (datagram_bytes mem) dl)) < size_t_bound" using that(2) w by simp
    qed
    with sent w show ?thesis by simp
  qed
  with dl sent show ?thesis by (auto simp: send_to_def)
qed


text \<open>A socket for small datagrams, and asio refusing the second one.\<close>

definition demo_socket :: "string Socket" where
  "demo_socket = set_max_udp_datagram_size 30 (new_socket (1, 2, 3, 4))"

lemma demo_socket_simps [simp]:
  "max_udp_datagram_size demo_socket = 30" "magic_header_bytes demo_socket = (1, 2, 3, 4)"
  "max_reassembly_age demo_socket = 5 * 10 ^ 9" "reassembly_v5 demo_socket = Map.empty"
  by (simp_all add: demo_socket_def set_max_udp_datagram_size_def new_socket_def)

definition demo_answer :: "nat \<Rightarrow> nat \<times> nat option" where
  "demo_answer i = (if i = 1 then (0, Some 105) else (30, None))"

lemma demo_datagrams:
  "length (wire_datagrams (1, 2, 3, 4) i 30 (message_bytes demo_memory demo_buffers)) = 3"
  by (simp add: demo_message wire_datagrams_def wire_fragments_def layout chunks_step Let_def)


text \<open>
  C13: the asynchronous send does what the synchronous one does. When asio answers the datagrams in
  the same way, both hand the same datagrams to asio, and the completion handler is called exactly
  once, after the last of them, with the error code the synchronous call reports.
\<close>

theorem async_send_agrees:
  assumes "send_to h mem s bufs answer None clock ids = Some (Inr ((sent, ec, wire), ids'))"
    and "length wire \<le> n"
  shows "async_send_to h mem s bufs (map (\<lambda>j. snd (answer j)) [0..<n]) clock ids =
    Some (Inr (map Send wire @ [Completion_Handler ec], ids'))"
proof -
  from assms(1) obtain dl where dl: "create_datagram_list h bufs (max_udp_datagram_size s)
      (magic_header_bytes s) clock ids = Some (Inr (dl, ids'))"
    and s: "send_datagrams mem answer 0 dl 0 None = (sent, ec, wire)"
    by (auto simp: send_to_def split: option.splits sum.splits prod.splits)
  from async_send_spec [of mem answer 0 dl 0 n] assms(2) dl s show ?thesis
    by (simp add: async_send_to_def)
qed

theorem async_send_agrees_witness:
  "\<exists>wire ids'. async_send_to Little_Endian demo_memory demo_socket demo_buffers [None, Some 105] 5 None =
     Some (Inr (map Send wire @ [Completion_Handler (Some (105 :: nat))], ids')) \<and> length wire = 2"
proof -
  obtain dl ids' where dl: "create_datagram_list Little_Endian demo_buffers 30 (1, 2, 3, 4) 5 None =
      Some (Inr (dl, ids'))" and "length dl = 3"
    using create_datagram_list_spec [OF demo_input, of Little_Endian "(1, 2, 3, 4)" 5 None]
      demo_datagrams by (metis length_map)
  then obtain a b c where "dl = [a, b, c]" by (auto simp: length_Suc_conv numeral_3_eq_3)
  then obtain sent wire where "send_to Little_Endian demo_memory demo_socket demo_buffers demo_answer None
      5 None = Some (Inr ((sent, Some 105, wire), ids'))" and "length wire = 2"
    using dl by (simp add: send_to_def demo_answer_def Let_def)
  with async_send_agrees [OF this(1), of 2] show ?thesis
    by (auto simp: demo_answer_def upt_rec)
qed

section \<open>The magic bytes\<close>

text \<open>How many bytes \<^verbatim>\<open>strncmp\<close> looks at: up to the first null character of the magic.\<close>

definition compared :: "byte list \<Rightarrow> nat" where
  "compared m = Suc (length (takeWhile (\<lambda>b. b \<noteq> 0) m))"

lemma strncmp_iff:
  "length a = n \<Longrightarrow> length m = n \<Longrightarrow>
     strncmp a m n = 0 \<longleftrightarrow> take (compared m) a = take (compared m) m"
proof (induction a m n rule: strncmp.induct)
  case (1 a as b bs n)
  then show ?case by (auto simp: compared_def)
qed auto

lemma length_header_magic: "sizeof_HeaderCommon \<le> length d \<Longrightarrow> length (header_magic d) = 4"
  by (simp add: header_magic_def layout)

definition clean :: "clocks \<Rightarrow> 'ep Socket \<Rightarrow> 'ep Socket" where
  "clean t s = s\<lparr>reassembly_v5 :=
     remove_old_packages (clean_time t - max_reassembly_age s) (reassembly_v5 s)\<rparr>"

lemma clean_simps [simp]:
  "magic_header_bytes (clean t s) = magic_header_bytes s"
  "max_reassembly_age (clean t s) = max_reassembly_age s"
  "reassembly_v5 (clean t s) =
     remove_old_packages (clean_time t - max_reassembly_age s) (reassembly_v5 s)"
  by (simp_all add: clean_def)

text \<open>A datagram that gets past the common header.\<close>

definition passes :: "magic \<Rightarrow> byte list \<Rightarrow> bool" where
  "passes m d \<longleftrightarrow> sizeof_HeaderCommon \<le> length d \<and>
     take (compared (magic_bytes m)) (header_magic d) = take (compared (magic_bytes m)) (magic_bytes m) \<and>
     header_version d = 5"

lemma socket_handle_passes:
  assumes "passes (magic_header_bytes s) d"
  shows "socket_handle_datagram h pool s t d ep err =
    (case handle_datagram h pool (access_time t) d ep err (reassembly_v5 (clean t s)) of
       Inl f \<Rightarrow> Inl f
     | Inr (b, e, ps) \<Rightarrow> Inr (if is_error e then None else b, e, (clean t s)\<lparr>reassembly_v5 := ps\<rparr>))"
proof -
  have "strncmp (header_magic d) (magic_bytes (magic_header_bytes s)) 4 = 0"
    using assms strncmp_iff [of "header_magic d" 4 "magic_bytes (magic_header_bytes s)"]
    by (simp add: passes_def length_header_magic)
  with assms show ?thesis
    by (simp add: socket_handle_datagram_def passes_def clean_def Let_def split: sum.split)
qed

lemma socket_handle_drops:
  assumes "\<not> passes (magic_header_bytes s) d"
  shows "\<exists>e. socket_handle_datagram h pool s t d ep err = Inr (None, e, clean t s) \<and>
    err_code e = (if sizeof_HeaderCommon \<le> length d \<and>
        take (compared (magic_bytes (magic_header_bytes s))) (header_magic d) =
        take (compared (magic_bytes (magic_header_bytes s))) (magic_bytes (magic_header_bytes s))
      then UNSUPPORTED_PROTOCOL_VERSION else MALFORMED_DATAGRAM)"
proof (cases "length d < sizeof_HeaderCommon")
  case True
  then show ?thesis by (simp add: socket_handle_datagram_def clean_def Let_def)
next
  case False
  then have m: "strncmp (header_magic d) (magic_bytes (magic_header_bytes s)) 4 = 0 \<longleftrightarrow>
      take (compared (magic_bytes (magic_header_bytes s))) (header_magic d) =
      take (compared (magic_bytes (magic_header_bytes s))) (magic_bytes (magic_header_bytes s))"
    by (intro strncmp_iff) (simp_all add: length_header_magic)
  have v: "unat (header_version d) = 5 \<longleftrightarrow> header_version d = 5"
    by (simp add: word_unat_eq_iff)
  show ?thesis
    using assms False m v by (auto simp: socket_handle_datagram_def passes_def clean_def Let_def)
qed

section \<open>What the receiving calls have in common\<close>

text \<open>The loop of a receiving call over any handler, with the condition that ends it early.\<close>

fun receive_loop ::
    "('s \<Rightarrow> clocks \<Rightarrow> byte list \<Rightarrow> 'ep \<Rightarrow> fault + OwningBuffer option \<times> Error \<times> 's) \<Rightarrow>
     (byte list \<Rightarrow> 'ep \<Rightarrow> bool) \<Rightarrow> 's \<Rightarrow> 'ep \<Rightarrow> ('ep, 'ec) inbox \<Rightarrow> ('ep, 'ec, 's) receive_outcome" where
  "receive_loop handle stop s sender [] = Waiting s"
| "receive_loop handle stop s sender ((t, Receive_Error ec) # rs) = Returned None sender (Some ec) s rs"
| "receive_loop handle stop s sender ((t, Datagram d ep) # rs) =
     (if stop d ep then Returned None sender None s rs
      else
        (case handle s t d ep of
           Inl f \<Rightarrow> Failed f
         | Inr (Some b, e, s) \<Rightarrow> Returned (Some b) ep None s rs
         | Inr (None, e, s) \<Rightarrow> receive_loop handle stop s sender rs))"

text \<open>Every datagram is admissible in the state in which it is handled.\<close>

fun admissible_inbox ::
    "('s \<Rightarrow> clocks \<Rightarrow> byte list \<Rightarrow> 'ep \<Rightarrow> fault + OwningBuffer option \<times> Error \<times> 's) \<Rightarrow>
     (byte list \<Rightarrow> 'ep \<Rightarrow> bool) \<Rightarrow> ('s \<Rightarrow> clocks \<Rightarrow> byte list \<Rightarrow> 'ep \<Rightarrow> bool) \<Rightarrow> 's \<Rightarrow>
     ('ep, 'ec) inbox \<Rightarrow> bool" where
  "admissible_inbox handle stop adm s [] \<longleftrightarrow> True"
| "admissible_inbox handle stop adm s ((t, Receive_Error ec) # rs) \<longleftrightarrow>
     admissible_inbox handle stop adm s rs"
| "admissible_inbox handle stop adm s ((t, Datagram d ep) # rs) \<longleftrightarrow>
     (if stop d ep then admissible_inbox handle stop adm s rs
      else adm s t d ep \<and>
        (case handle s t d ep of
           Inl f \<Rightarrow> True
         | Inr (b, e, s') \<Rightarrow> admissible_inbox handle stop adm s' rs))"

text \<open>
  A handler of datagrams: on admissible datagrams it keeps its invariant, does not fault, and a
  buffer it hands out is valid and comes with the code \<open>OK\<close>.
\<close>

locale datagram_handler =
  fixes handle :: "'s \<Rightarrow> clocks \<Rightarrow> byte list \<Rightarrow> 'ep \<Rightarrow> fault + OwningBuffer option \<times> Error \<times> 's"
    and inv :: "'s \<Rightarrow> bool"
    and adm :: "'s \<Rightarrow> clocks \<Rightarrow> byte list \<Rightarrow> 'ep \<Rightarrow> bool"
  assumes handle_ok: "inv s \<Longrightarrow> adm s t d ep \<Longrightarrow>
    \<exists>b e s'. handle s t d ep = Inr (b, e, s') \<and> inv s' \<and> pred_option valid_buffer b \<and>
      (b \<noteq> None \<longrightarrow> err_code e = OK)"
begin

lemma loop_ok:
  assumes "inv s" "admissible_inbox handle stop adm s rs"
  shows "case receive_loop handle stop s sender rs of
      Waiting s' \<Rightarrow> inv s'
    | Returned b ep ec s' rs' \<Rightarrow>
        inv s' \<and> admissible_inbox handle stop adm s' rs' \<and> pred_option valid_buffer b
    | Failed f \<Rightarrow> False"
  using assms
proof (induction rs arbitrary: s)
  case (Cons r rs)
  obtain t x where r: "r = (t, x)" by (cases r)
  show ?case
  proof (cases x)
    case (Receive_Error ec)
    with Cons.prems show ?thesis by (simp add: r)
  next
    case (Datagram d ep)
    show ?thesis
    proof (cases "stop d ep")
      case True
      with Cons.prems show ?thesis by (simp add: r Datagram)
    next
      case False
      with Cons.prems have "adm s t d ep" by (simp add: r Datagram)
      from handle_ok [OF Cons.prems(1) this] obtain b e s' where
        h: "handle s t d ep = Inr (b, e, s')" "inv s'" "pred_option valid_buffer b"
        by auto
      then have rest: "admissible_inbox handle stop adm s' rs"
        using Cons.prems(2) False by (simp add: r Datagram)
      show ?thesis
        using Cons.IH [OF h(2) rest] False h rest by (cases b) (simp_all add: r Datagram)
    qed
  qed
qed simp

text \<open>The early end makes no difference, unless one of the datagrams meets its condition.\<close>

lemma loop_stop:
  assumes "\<And>t d ep. (t, Datagram d ep) \<in> set rs \<Longrightarrow> \<not> stop d ep"
  shows "receive_loop handle stop s sender rs = receive_loop handle (\<lambda>_ _. False) s sender rs"
  using assms
proof (induction rs arbitrary: s)
  case (Cons r rs)
  obtain t x where r: "r = (t, x)" by (cases r)
  have IH: "receive_loop handle stop s sender rs = receive_loop handle (\<lambda>_ _. False) s sender rs" for s
    by (rule Cons.IH) (use Cons.prems in auto)
  show ?case
    using Cons.prems [of t] by (cases x) (auto simp: r IH split: sum.split option.split)
qed simp

end

text \<open>The handler of the socket is one; admissible means not truncating, after the cleaning.\<close>

definition socket_handler ::
    "host \<Rightarrow> (nat \<Rightarrow> byte) \<Rightarrow> 'ep Socket \<Rightarrow> clocks \<Rightarrow> byte list \<Rightarrow> 'ep \<Rightarrow>
     fault + OwningBuffer option \<times> Error \<times> 'ep Socket" where
  "socket_handler h pool s t d ep = socket_handle_datagram h pool s t d ep (error_of_code GENERIC_ERROR)"

definition socket_inv :: "'ep Socket \<Rightarrow> bool" where
  "socket_inv s \<longleftrightarrow> all_consistent (reassembly_v5 s)"

definition socket_adm :: "host \<Rightarrow> 'ep Socket \<Rightarrow> clocks \<Rightarrow> byte list \<Rightarrow> 'ep \<Rightarrow> bool" where
  "socket_adm h s t d ep \<longleftrightarrow> length d < 2 ^ 32 \<and> \<not> truncating h d ep (reassembly_v5 (clean t s))"

lemma all_consistent_clean: "all_consistent ps \<Longrightarrow> all_consistent (remove_old_packages limit ps)"
  by (auto simp: all_consistent_def remove_old_packages_def split: option.splits)

interpretation sock: datagram_handler "socket_handler h pool" socket_inv "socket_adm h"
  for h pool
proof
  fix s :: "'ep Socket" and t d and ep :: 'ep
  assume inv: "socket_inv s" and adm: "socket_adm h s t d ep"
  have c: "all_consistent (reassembly_v5 (clean t s))"
    using inv all_consistent_clean by (simp add: socket_inv_def)
  show "\<exists>b e s'. socket_handler h pool s t d ep = Inr (b, e, s') \<and> socket_inv s' \<and>
      pred_option valid_buffer b \<and> (b \<noteq> None \<longrightarrow> err_code e = OK)"
  proof (cases "passes (magic_header_bytes s) d")
    case True
    from adm handle_datagram_implements [OF c, of d h ep pool "access_time t" "error_of_code GENERIC_ERROR"]
    obtain b e ps where "handle_datagram h pool (access_time t) d ep (error_of_code GENERIC_ERROR)
        (reassembly_v5 (clean t s)) = Inr (b, e, ps)" "all_consistent ps" "pred_option valid_buffer b"
      by (auto simp: socket_adm_def implements_def)
    with socket_handle_passes [OF True, of h pool t ep "error_of_code GENERIC_ERROR"] show ?thesis
      by (auto simp: socket_handler_def socket_inv_def)
  next
    case False
    from socket_handle_drops [OF False, of h pool t ep "error_of_code GENERIC_ERROR"] c show ?thesis
      by (auto simp: socket_handler_def socket_inv_def)
  qed
qed

lemma receive_from_loop:
  "receive_from h pool no_endpoint s sender rs =
     receive_loop (socket_handler h pool) (\<lambda>d ep. length d = 0 \<and> ep = no_endpoint) s sender rs"
  by (induction h pool no_endpoint s sender rs rule: receive_from.induct)
    (auto simp: socket_handler_def split: sum.split option.split)

lemma async_receive_from_loop:
  "async_receive_from h pool s sender rs =
     receive_loop (socket_handler h pool) (\<lambda>_ _. False) s sender rs"
  unfolding async_receive_from_def
  by (induction h pool s sender rs rule: receive_next_datagram_from.induct)
    (auto simp: socket_handler_def split: sum.split option.split)

section \<open>Delivery through sockets\<close>

text \<open>The datagrams that arrive, one after the other, and what each of them completes.\<close>

fun socket_run ::
    "host \<Rightarrow> (nat \<Rightarrow> byte) \<Rightarrow> 'ep Socket \<Rightarrow> (clocks \<times> byte list \<times> 'ep) list \<Rightarrow>
     fault + ('ep \<times> OwningBuffer option \<times> Error) list \<times> 'ep Socket" where
  "socket_run h pool s [] = Inr ([], s)"
| "socket_run h pool s ((t, d, ep) # ds) =
     (case socket_handler h pool s t d ep of
        Inl f \<Rightarrow> Inl f
      | Inr (b, e, s) \<Rightarrow>
          (case socket_run h pool s ds of Inl f \<Rightarrow> Inl f | Inr (rs, s) \<Rightarrow> Inr ((ep, b, e) # rs, s)))"

text \<open>The time stamps of the packages all lie in the set \<open>A\<close>.\<close>

definition stamped :: "int set \<Rightarrow> 'ep Socket \<Rightarrow> bool" where
  "stamped A s \<longleftrightarrow> (\<forall>key pkg. reassembly_v5 s key = Some pkg \<longrightarrow> last_access (fst pkg) \<in> A)"

lemma clean_young:
  assumes "stamped A s" "\<And>a. a \<in> A \<Longrightarrow> clean_time t - max_reassembly_age s \<le> a"
  shows "clean t s = s"
proof -
  have "remove_old_packages (clean_time t - max_reassembly_age s) (reassembly_v5 s) = reassembly_v5 s"
    using assms by (fastforce simp: stamped_def remove_old_packages_def split: option.split)
  then show ?thesis by (simp add: clean_def)
qed

definition in_time :: "int set \<Rightarrow> 'ep Socket \<Rightarrow> clocks \<Rightarrow> bool" where
  "in_time A s t \<longleftrightarrow> access_time t \<in> A \<and> (\<forall>a \<in> A. clean_time t - max_reassembly_age s \<le> a)"

lemma socket_step:
  assumes "stamped A s" "all_consistent (reassembly_v5 s)" "in_time A s t"
    and p: "passes (magic_header_bytes s) d" and len: "length d < 2 ^ 32"
    and t: "\<not> spec_truncating ep (parse h d) (abs_map (reassembly_v5 s))"
    and v: "spec_receive ep (parse h d) (abs_map (reassembly_v5 s)) = ((m, OK), st')"
  shows "\<exists>b e ps'. socket_handler h pool s t d ep = Inr (b, e, s\<lparr>reassembly_v5 := ps'\<rparr>) \<and>
    map_option buffer_bytes b = m \<and> err_code e = OK \<and> abs_map ps' = st' \<and> all_consistent ps' \<and>
    stamped A (s\<lparr>reassembly_v5 := ps'\<rparr>) \<and> pred_option valid_buffer b"
proof -
  have c: "clean t s = s"
    using clean_young [OF assms(1), of t] assms(3) by (simp add: in_time_def)
  have "\<not> truncating h d ep (reassembly_v5 s)" using t truncating_spec [of h d ep "reassembly_v5 s"] by blast
  from handle_datagram_implements [OF assms(2) len this, of pool "access_time t" "error_of_code GENERIC_ERROR"] v
  obtain b e ps' where h: "handle_datagram h pool (access_time t) d ep (error_of_code GENERIC_ERROR)
      (reassembly_v5 s) = Inr (b, e, ps')" and r: "map_option buffer_bytes b = m" "err_code e = OK"
      "abs_map ps' = st'" "all_consistent ps'" "pred_option valid_buffer b"
    by (auto simp: implements_def)
  have "stamped A (s\<lparr>reassembly_v5 := ps'\<rparr>)"
    unfolding stamped_def
  proof (intro allI impI)
    fix key pkg assume k: "reassembly_v5 (s\<lparr>reassembly_v5 := ps'\<rparr>) key = Some pkg"
    show "last_access (fst pkg) \<in> A"
    proof (cases "key = (ep, header_id h d)")
      case True
      with k handle_datagram_frame [OF h] r(2)
      consider "last_access (fst pkg) = access_time t" | "ps' = reassembly_v5 s" by auto
      then show ?thesis
      proof cases
        case 2
        with k have "reassembly_v5 s key = Some pkg" by simp
        with assms(1) show ?thesis unfolding stamped_def by blast
      qed (use assms(3) in \<open>simp add: in_time_def\<close>)
    next
      case False
      with k handle_datagram_frame [OF h] have "reassembly_v5 s key = Some pkg" by auto
      with assms(1) show ?thesis unfolding stamped_def by blast
    qed
  qed
  with h r c socket_handle_passes [OF p, of h pool t ep "error_of_code GENERIC_ERROR"] show ?thesis
    by (auto simp: socket_handler_def)
qed

lemma socket_run_refines:
  assumes "stamped A s" "all_consistent (reassembly_v5 s)"
    and "\<forall>(t, d, ep) \<in> set ds. in_time A s t \<and> passes (magic_header_bytes s) d \<and> length d < 2 ^ 32"
    and "safe_run (map (\<lambda>(t, d, ep). (ep, parse h d)) ds) (abs_map (reassembly_v5 s))"
    and "\<forall>x \<in> set (fst (spec_run (map (\<lambda>(t, d, ep). (ep, parse h d)) ds) (abs_map (reassembly_v5 s)))).
      snd (snd x) = OK"
  shows "\<exists>rs s'. socket_run h pool s ds = Inr (rs, s') \<and> list_all (\<lambda>(ep, b, e). pred_option valid_buffer b) rs \<and>
    map (\<lambda>(ep, b, e). (ep, map_option buffer_bytes b, err_code e)) rs =
      fst (spec_run (map (\<lambda>(t, d, ep). (ep, parse h d)) ds) (abs_map (reassembly_v5 s)))"
  using assms
proof (induction ds arbitrary: s)
  case (Cons x ds)
  obtain t d ep where x: "x = (t, d, ep)" by (metis prod_cases3)
  obtain m c st' where v: "spec_receive ep (parse h d) (abs_map (reassembly_v5 s)) = ((m, c), st')"
    by (metis prod_cases3 prod.collapse)
  have "c = OK" using Cons.prems(5) by (simp add: x v split_beta)
  with socket_step [OF Cons.prems(1,2), of t d ep h m st' pool] Cons.prems v
  obtain b e ps' where s: "socket_handler h pool s t d ep = Inr (b, e, s\<lparr>reassembly_v5 := ps'\<rparr>)"
    "map_option buffer_bytes b = m" "err_code e = OK" "abs_map ps' = st'" "all_consistent ps'"
    "stamped A (s\<lparr>reassembly_v5 := ps'\<rparr>)" "pred_option valid_buffer b"
    by (auto simp: x)
  let ?s = "s\<lparr>reassembly_v5 := ps'\<rparr>"
  have "\<exists>rs s'. socket_run h pool ?s ds = Inr (rs, s') \<and> list_all (\<lambda>(ep, b, e). pred_option valid_buffer b) rs \<and>
    map (\<lambda>(ep, b, e). (ep, map_option buffer_bytes b, err_code e)) rs =
      fst (spec_run (map (\<lambda>(t, d, ep). (ep, parse h d)) ds) (abs_map (reassembly_v5 ?s)))"
    by (rule Cons.IH) (use Cons.prems s v in \<open>auto simp: x split_beta in_time_def\<close>)
  then show ?case using s v \<open>c = OK\<close> by (auto simp: x split: prod.split)
qed simp

text \<open>A user who receives again and again, until nothing is left to receive or an error comes.\<close>

lemma receive_loop_rest:
  "receive_loop handle stop s sender rs = Returned b ep ec s' rs' \<Longrightarrow> length rs' < length rs"
proof (induction rs arbitrary: s)
  case (Cons r rs)
  obtain t x where r: "r = (t, x)" by (cases r)
  from Cons show ?case
    by (cases x) (auto simp: r less_SucI split: if_splits sum.splits option.splits)
qed simp

function receive_messages ::
    "host \<Rightarrow> (nat \<Rightarrow> byte) \<Rightarrow> 'ep Socket \<Rightarrow> 'ep \<Rightarrow> ('ep, 'ec) inbox \<Rightarrow> ('ep \<times> byte list) list" where
  "receive_messages h pool s sender rs =
     (case async_receive_from h pool s sender rs of
        Returned (Some b) ep ec s' rs' \<Rightarrow> (ep, buffer_bytes b) # receive_messages h pool s' ep rs'
      | _ \<Rightarrow> [])"
  by pat_completeness auto
termination
  by (relation "measure (\<lambda>(h, pool, s, sender, rs). length rs)")
    (auto simp: async_receive_from_loop dest: receive_loop_rest)

declare receive_messages.simps [simp del]

lemma receive_messages_run:
  "socket_run h pool s ds = Inr (rs, s') \<Longrightarrow>
     receive_messages h pool s sender (map (\<lambda>(t, d, ep). (t, Datagram d ep)) ds) = delivered rs"
proof (induction ds arbitrary: s sender rs)
  case Nil
  then show ?case by (subst receive_messages.simps) (simp add: async_receive_from_loop)
next
  case (Cons x ds)
  obtain t d ep where x: "x = (t, d, ep)" by (metis prod_cases3)
  from Cons.prems obtain b e s1 rs1 where h: "socket_handler h pool s t d ep = Inr (b, e, s1)"
    "socket_run h pool s1 ds = Inr (rs1, s')" "rs = (ep, b, e) # rs1"
    by (auto simp: x split: sum.splits)
  show ?case
  proof (cases b)
    case None
    then show ?thesis
      using Cons.IH [OF h(2), of sender, unfolded receive_messages.simps [of h pool s1]] h
      by (subst receive_messages.simps) (simp add: async_receive_from_loop x)
  next
    case (Some buf)
    with Cons.IH [OF h(2), of ep] h show ?thesis
      by (subst receive_messages.simps) (simp add: async_receive_from_loop x)
  qed
qed

lemma wire_header_common [wire]:
  "header_magic (wire_header m ty i n l) = magic_bytes m"
  "header_version (wire_header m ty i n l) = 5"
  using wire_header_fields(1,2) [of m ty i n l "[]"] by simp_all

lemma sent_passes:
  assumes "valid_sending s" "d \<in> set (sent_datagrams s)"
  shows "passes (s_magic s) d"
  using assms sent_datagrams_wire [of s]
  by (auto simp: passes_def wire_datagrams_def wire_non_fragmented_def wire_info_def wire_fragments_def
      wire_fragment_def wire Let_def layout split: if_splits)

lemma delivery_run:
  assumes "\<forall>(ep, x) \<in> set sends. valid_sending x \<and> s_magic x = magic_header_bytes s"
    and "distinct (map (\<lambda>(ep, x). (ep, sent_id x)) (filter (\<lambda>(ep, x). fragmented x) sends))"
    and "mset (map (\<lambda>(t, d, ep). (ep, d)) ds) =
      mset (concat (map (\<lambda>(ep, x). map (Pair ep) (sent_datagrams x)) sends))"
    and "reassembly_v5 s = Map.empty"
    and "\<forall>(t, d, ep) \<in> set ds. \<forall>(t', d', ep') \<in> set ds.
      clean_time t - access_time t' \<le> max_reassembly_age s"
  shows "\<exists>rs s'. socket_run h pool s ds = Inr (rs, s') \<and> list_all (\<lambda>(ep, b, e). pred_option valid_buffer b) rs \<and>
    mset (delivered rs) = mset (map (\<lambda>(ep, x). (ep, sent_message x)) sends)"
proof -
  let ?A = "(\<lambda>(t, d, ep). access_time t) ` set ds"
  let ?ev = "map (\<lambda>(t, d, ep). (ep, parse h d)) ds"
  have valid: "\<forall>(ep, x) \<in> set sends. valid_sending x" using assms(1) by auto
  have ev: "mset ?ev = mset (concat (map (\<lambda>(ep, x). sent_events ep x) sends))"
    by (rule traffic_events(1) [OF valid assms(3)])
  have len: "\<forall>(t, d, ep) \<in> set ds. length d < 2 ^ 32" by (rule traffic_events(2) [OF valid assms(3)])
  note run = traffic_run [OF valid assms(2) ev]
  have "passes (magic_header_bytes s) d" if "(t, d, ep) \<in> set ds" for t d ep
  proof -
    from that have "(ep, d) \<in> set (map (\<lambda>(t, d, ep). (ep, d)) ds)" by force
    then have "(ep, d) \<in> set (concat (map (\<lambda>(ep, x). map (Pair ep) (sent_datagrams x)) sends))"
      using mset_eq_setD [OF assms(3)] by simp
    with assms(1) sent_passes show ?thesis by fastforce
  qed
  moreover have "in_time ?A s t" if "(t, d, ep) \<in> set ds" for t d ep
    using that assms(5) by (force simp: in_time_def)
  ultimately have a: "\<forall>(t, d, ep) \<in> set ds. in_time ?A s t \<and> passes (magic_header_bytes s) d \<and>
      length d < 2 ^ 32"
    using len by auto
  have st: "stamped ?A s" and ac: "all_consistent (reassembly_v5 s)"
    and em: "abs_map (reassembly_v5 s) = (\<lambda>_. nothing)"
    using assms(4) by (simp_all add: stamped_def all_consistent_empty abs_map_empty)
  have ok: "\<forall>x \<in> set (fst (spec_run ?ev (\<lambda>_. nothing))). snd (snd x) = OK"
    using run(1) traffic_verdicts_ok by (metis set_mset_mset)
  obtain rs s' where r: "socket_run h pool s ds = Inr (rs, s')" "list_all (\<lambda>(ep, b, e). pred_option valid_buffer b) rs"
    "map (\<lambda>(ep, b, e). (ep, map_option buffer_bytes b, err_code e)) rs = fst (spec_run ?ev (\<lambda>_. nothing))"
    using socket_run_refines [OF st ac a, of h pool, unfolded em, OF run(2) ok] by blast
  have "mset (delivered rs) = mset (map (\<lambda>(ep, x). (ep, sent_message x)) sends)"
    using split_traffic [OF valid]
    unfolding delivered_messages r(3) run(1) traffic_verdicts_def
      messages_of_simps messages_of_fragmented messages_of_whole .
  with r show ?thesis by blast
qed

text \<open>
  C1: what one socket sends, another one receives. The datagrams of any number of messages (sent
  with the magic bytes of the receiving socket, from any hosts, distinct ids for the fragmented
  messages of a sender) reach a socket with nothing pending, in any order and interleaving, while
  the clock advances by at most \<^verbatim>\<open>max_reassembly_age\<close>. A user who calls
  \<^verbatim>\<open>async_receive_from\<close> again and again gets every message exactly once, unchanged and with
  its sender.
\<close>

theorem socket_delivery:
  assumes "\<forall>(ep, x) \<in> set sends. valid_sending x \<and> s_magic x = magic_header_bytes s"
    and "distinct (map (\<lambda>(ep, x). (ep, sent_id x)) (filter (\<lambda>(ep, x). fragmented x) sends))"
    and "mset (map (\<lambda>(t, d, ep). (ep, d)) ds) =
      mset (concat (map (\<lambda>(ep, x). map (Pair ep) (sent_datagrams x)) sends))"
    and "reassembly_v5 s = Map.empty"
    and "\<forall>(t, d, ep) \<in> set ds. \<forall>(t', d', ep') \<in> set ds.
      clean_time t - access_time t' \<le> max_reassembly_age s"
  shows "mset (receive_messages h pool s sender (map (\<lambda>(t, d, ep). (t, Datagram d ep)) ds)) =
    mset (map (\<lambda>(ep, x). (ep, sent_message x)) sends)"
proof -
  obtain rs s' where "socket_run h pool s ds = Inr (rs, s')"
    "mset (delivered rs) = mset (map (\<lambda>(ep, x). (ep, sent_message x)) sends)"
    using delivery_run [OF assms, of h pool] by blast
  then show ?thesis by (simp add: receive_messages_run)
qed

text \<open>The three datagrams of the small message arrive in reverse order.\<close>

theorem socket_delivery_witness:
  "receive_messages Little_Endian (\<lambda>_. 0) (new_socket (1, 2, 3, 4)) ''nobody''
     (map (\<lambda>d. (\<lparr>clean_time = 7, access_time = 7\<rparr>, Datagram d ''sender'')) (rev (sent_datagrams demo_sending))
        :: (string, nat) inbox) =
     [(''sender'', [2, 3, 4, 5, 6, 7, 8, 9])] \<and> length (sent_datagrams demo_sending) = 3"
proof -
  let ?t = "\<lparr>clean_time = 7, access_time = 7\<rparr>"
  let ?ds = "map (\<lambda>d. (?t, d, ''sender'')) (rev (sent_datagrams demo_sending))"
  let ?sends = "[(''sender'', demo_sending)]" and ?s = "new_socket (1, 2, 3, 4) :: string Socket"
  have "\<forall>(ep, x) \<in> set ?sends. valid_sending x \<and> s_magic x = magic_header_bytes ?s"
    using demo_valid by (simp add: demo_sending_def new_socket_def)
  moreover have "mset (map (\<lambda>(t, d, ep). (ep, d)) ?ds) =
      mset (concat (map (\<lambda>(ep, x). map (Pair ep) (sent_datagrams x)) ?sends))"
    by (simp add: comp_def)
  moreover have "distinct (map (\<lambda>(ep, x). (ep, sent_id x)) (filter (\<lambda>(ep, x). fragmented x) ?sends))"
    by simp
  ultimately have "mset (receive_messages Little_Endian (\<lambda>_. 0) ?s ''nobody''
      (map (\<lambda>(t, d, ep). (t, Datagram d ep)) ?ds :: (string, nat) inbox)) = mset [(''sender'', [2, 3, 4, 5, 6, 7, 8, 9])]"
    using socket_delivery [of ?sends ?s ?ds Little_Endian "\<lambda>_. 0" "''nobody''"]
    by (auto simp: demo_sent new_socket_def)
  moreover have "length (sent_datagrams demo_sending) = 3"
    using sent_datagrams_wire [OF demo_valid] demo_datagrams by (simp add: demo_sending_def sent_message_def)
  ultimately show ?thesis by (simp add: comp_def)
qed

text \<open>
  Receiving is safe. From a consistent state, whatever datagrams and errors asio returns (as
  long as no fragmentation info is truncating), \<^verbatim>\<open>receive_from\<close> never runs into undefined
  behaviour, leaves a consistent state, and a buffer it returns lies in memory the buffer owns.
\<close>

lemma receive_from_safe:
  assumes "all_consistent (reassembly_v5 s)"
    and "admissible_inbox (socket_handler h pool) (\<lambda>d ep. length d = 0 \<and> ep = no_endpoint) (socket_adm h) s rs"
  shows "case receive_from h pool no_endpoint s sender rs of
      Waiting s' \<Rightarrow> all_consistent (reassembly_v5 s')
    | Returned b ep ec s' rs' \<Rightarrow> all_consistent (reassembly_v5 s') \<and> pred_option valid_buffer b
    | Failed f \<Rightarrow> False"
  using sock.loop_ok [of s h pool "\<lambda>d ep. length d = 0 \<and> ep = no_endpoint" rs sender] assms
  by (auto simp: receive_from_loop socket_inv_def split: receive_outcome.splits)

text \<open>
  C17: the two ways of receiving agree. As long as asio returns no empty datagram from the default
  endpoint (which the synchronous call takes for a socket that has been shut down),
  \<^verbatim>\<open>receive_from\<close> returns what \<^verbatim>\<open>async_receive_from\<close> passes to its completion
  handler: the same buffer, sender, error code and state.
\<close>

theorem receive_variants_agree:
  assumes "\<And>t d. (t, Datagram d no_endpoint) \<in> set rs \<Longrightarrow> d \<noteq> []"
  shows "receive_from h pool no_endpoint s sender rs = async_receive_from h pool s sender rs"
  unfolding receive_from_loop async_receive_from_loop
  by (rule sock.loop_stop) (use assms in auto)

theorem receive_variants_agree_witness:
  "receive_from Big_Endian (\<lambda>_. 0) (0 :: nat) (new_socket (1, 2, 3, 4)) 0
     [(\<lparr>clean_time = 1, access_time = 1\<rparr>, Datagram [] 7 :: (nat, nat) received)] =
   async_receive_from Big_Endian (\<lambda>_. 0) (new_socket (1, 2, 3, 4)) 0
     [(\<lparr>clean_time = 1, access_time = 1\<rparr>, Datagram [] 7)]"
  by (rule receive_variants_agree) simp

text \<open>
  Foreign datagrams are dropped. A datagram that is too short for the common header, has
  another version than 5, or does not start with the socket's magic bytes (when these contain no
  null character) completes no message, is reported as malformed or unsupported, and changes
  nothing but the removal of old packages.
\<close>

lemma socket_drops:
  assumes "length d < sizeof_HeaderCommon \<or> header_version d \<noteq> 5 \<or>
      header_magic d \<noteq> magic_bytes (magic_header_bytes s) \<and> 0 \<notin> set (magic_bytes (magic_header_bytes s))"
  shows "\<exists>e. socket_handle_datagram h pool s t d ep err =
      Inr (None, e, s\<lparr>reassembly_v5 :=
        remove_old_packages (clean_time t - max_reassembly_age s) (reassembly_v5 s)\<rparr>) \<and>
    err_code e \<in> {MALFORMED_DATAGRAM, UNSUPPORTED_PROTOCOL_VERSION}"
proof -
  let ?m = "magic_bytes (magic_header_bytes s)"
  have "compared ?m = 5" if "0 \<notin> set ?m"
  proof -
    have "takeWhile (\<lambda>b. b \<noteq> 0) ?m = ?m" using that by (auto simp: takeWhile_eq_all_conv)
    then show ?thesis by (simp only: compared_def length_magic_bytes)
  qed
  then have "\<not> passes (magic_header_bytes s) d"
    using assms by (auto simp: passes_def length_header_magic)
  from socket_handle_drops [OF this, of h pool t ep err] show ?thesis
    by (auto simp: clean_def)
qed



end
