(* ===== verification/Async_Udpcap.thy ===== *)
theory Async_Udpcap
  imports Error_Codes
begin

text \<open>
  The asynchronous wrapper around a udpcap socket (src/ecaludp/src/async_udpcap_socket.h and .cpp):
  requests to receive are queued under a mutex, and a thread takes them one after the other, waits
  for a datagram and calls the handler of the request. The blocks the mutex protects are the steps of
  a state machine. The udpcap library is a parameter: the results of its receive calls come in
  from outside, \<^verbatim>\<open>close\<close> closes its socket, a successful \<^verbatim>\<open>bind\<close> opens it.
\<close>

section \<open>Error codes\<close>

text \<open>The codes the conversion distinguishes; \<open>u_string\<close> is what \<^verbatim>\<open>ToString\<close> yields.\<close>

datatype udpcap_code =
    Udpcap_OK
  | Udpcap_NPCAP_NOT_INITIALIZED
  | Udpcap_NOT_BOUND
  | Udpcap_SOCKET_CLOSED
  | Udpcap_GENERIC_ERROR
  | Udpcap_Other nat

record udpcap_error =
  u_code :: udpcap_code
  u_message :: string
  u_string :: string

definition toEcaludpError :: "udpcap_error \<Rightarrow> Error" where
  "toEcaludpError u =
     (case u_code u of
        Udpcap_OK \<Rightarrow> make_error OK (u_message u)
      | Udpcap_NPCAP_NOT_INITIALIZED \<Rightarrow> make_error NPCAP_NOT_INITIALIZED (u_message u)
      | Udpcap_NOT_BOUND \<Rightarrow> make_error NOT_BOUND (u_message u)
      | Udpcap_SOCKET_CLOSED \<Rightarrow> make_error SOCKET_CLOSED (u_message u)
      | Udpcap_GENERIC_ERROR \<Rightarrow> make_error GENERIC_ERROR (u_message u)
      | Udpcap_Other n \<Rightarrow> make_error GENERIC_ERROR (''Unknown Udpcap Error: '' @ u_string u))"

lemma toEcaludpError_ok [simp]: "err_code (toEcaludpError u) = OK \<longleftrightarrow> u_code u = Udpcap_OK"
  by (simp add: toEcaludpError_def split: udpcap_code.split)

text \<open>One return of the udpcap receive call: the error, the bytes received, the sender.\<close>

record 'addr udpcap_result =
  u_error :: udpcap_error
  u_bytes :: "byte list"
  u_sender :: 'addr

definition receiveFrom :: "'addr udpcap_result \<Rightarrow> nat \<times> 'addr \<times> Error" where
  "receiveFrom r = (length (u_bytes r), u_sender r, toEcaludpError (u_error r))"

section \<open>The wait thread\<close>

text \<open>
  A request (buffer, address, port and handler) is known by a value of \<open>'r\<close>. The thread waits on the
  condition variable, is inside the receive call, or has left \<^verbatim>\<open>waitForData\<close>.
\<close>

datatype 'r wait_thread =
    No_Thread
  | Waiting_For_Request
  | Receiving 'r
  | Finished

text \<open>
  The last two fields record the past: the requests in the order they were made, and what became of
  those the thread has taken, \<open>None\<close> for a request whose handler is not called.
\<close>

record 'r async_socket =
  parameters_queue :: "'r list"
  is_closed :: bool
  wait_thread :: "'r wait_thread"
  requests :: "'r list"
  handled :: "('r \<times> (Error \<times> nat) option) list"

definition async_init :: "'r async_socket" where
  "async_init =
     \<lparr>parameters_queue = [], is_closed = False, wait_thread = No_Thread, requests = [], handled = []\<rparr>"

definition asyncReceiveFrom :: "'r \<Rightarrow> 'r async_socket \<Rightarrow> 'r async_socket" where
  "asyncReceiveFrom r s =
     s\<lparr>parameters_queue := parameters_queue s @ [r], requests := requests s @ [r]\<rparr>"

definition async_close :: "'r async_socket \<Rightarrow> 'r async_socket" where
  "async_close s = s\<lparr>is_closed := True\<rparr>"

text \<open>\<open>None\<close>: the call waits for the old thread to end.\<close>

definition async_bind :: "bool \<Rightarrow> 'r async_socket \<Rightarrow> 'r async_socket option" where
  "async_bind success s =
     (if \<not> success then Some s
      else if wait_thread s = No_Thread \<or> wait_thread s = Finished
      then Some (s\<lparr>is_closed := False, wait_thread := Waiting_For_Request\<rparr>)
      else None)"

text \<open>
  The locked block of \<^verbatim>\<open>waitForData\<close>; \<open>None\<close> as long as the condition variable keeps the
  thread waiting. The second check of the queue comes after the front has been taken.
\<close>

definition take_request :: "'r async_socket \<Rightarrow> 'r async_socket option" where
  "take_request s =
     (if wait_thread s \<noteq> Waiting_For_Request then None
      else if \<not> (is_closed s \<or> parameters_queue s \<noteq> []) then None
      else
        (let front = (if parameters_queue s \<noteq> [] then Some (hd (parameters_queue s)) else None);
             queue = (if parameters_queue s \<noteq> [] then tl (parameters_queue s) else parameters_queue s);
             s = s\<lparr>parameters_queue := queue\<rparr>
         in if queue = [] \<and> is_closed s
            then Some (s\<lparr>wait_thread := Finished,
                         handled := handled s @ (case front of None \<Rightarrow> [] | Some r \<Rightarrow> [(r, None)])\<rparr>)
            else (case front of None \<Rightarrow> None | Some r \<Rightarrow> Some (s\<lparr>wait_thread := Receiving r\<rparr>))))"

text \<open>The receive call returns, and the handler of the request is called.\<close>

definition call_handler :: "udpcap_error \<Rightarrow> nat \<Rightarrow> 'r async_socket \<Rightarrow> 'r async_socket option" where
  "call_handler u rec_bytes s =
     (case wait_thread s of
        Receiving r \<Rightarrow>
          Some (s\<lparr>wait_thread := Waiting_For_Request,
                  handled := handled s @ [(r, Some (toEcaludpError u, rec_bytes))]\<rparr>)
      | _ \<Rightarrow> None)"

text \<open>The loop of the thread, until it waits, is inside the receive call, or has ended.\<close>

fun waitForData :: "(udpcap_error \<times> nat) list \<Rightarrow> 'r async_socket \<Rightarrow> 'r async_socket" where
  "waitForData us s =
     (case take_request s of
        None \<Rightarrow> s
      | Some s1 \<Rightarrow>
          (case us of
             [] \<Rightarrow> s1
           | (u, n) # us' \<Rightarrow>
               (case call_handler u n s1 of None \<Rightarrow> s1 | Some s2 \<Rightarrow> waitForData us' s2)))"

declare waitForData.simps [simp del]

text \<open>
  The destructor closes the socket and joins the thread, which finishes its round first; \<open>None\<close>
  when the results given are used up and the thread has not ended.
\<close>

definition async_destroy :: "(udpcap_error \<times> nat) list \<Rightarrow> 'r async_socket \<Rightarrow> 'r async_socket option" where
  "async_destroy us s =
     (let s = async_close s;
          join = (\<lambda>s. if wait_thread s = Finished then Some s else None)
      in case wait_thread s of
           No_Thread \<Rightarrow> Some s
         | Finished \<Rightarrow> Some s
         | Waiting_For_Request \<Rightarrow> join (waitForData us s)
         | Receiving r \<Rightarrow>
             (case us of
                [] \<Rightarrow> None
              | (u, n) # us' \<Rightarrow>
                  (case call_handler u n s of None \<Rightarrow> None | Some s \<Rightarrow> join (waitForData us' s))))"

text \<open>Everything that can happen, by whichever thread.\<close>

inductive async_step :: "'r async_socket \<Rightarrow> 'r async_socket \<Rightarrow> bool" where
  request: "async_step s (asyncReceiveFrom r s)"
| close: "async_step s (async_close s)"
| bind: "async_bind success s = Some s' \<Longrightarrow> async_step s s'"
| take: "take_request s = Some s' \<Longrightarrow> async_step s s'"
| handler: "call_handler u n s = Some s' \<Longrightarrow> async_step s s'"

inductive async_reachable :: "'r async_socket \<Rightarrow> bool" where
  init: "async_reachable async_init"
| step: "async_reachable s \<Longrightarrow> async_step s s' \<Longrightarrow> async_reachable s'"

section \<open>Order\<close>

fun in_flight :: "'r wait_thread \<Rightarrow> 'r list" where
  "in_flight (Receiving r) = [r]"
| "in_flight _ = []"

definition in_order :: "'r async_socket \<Rightarrow> bool" where
  "in_order s \<longleftrightarrow> requests s = map fst (handled s) @ in_flight (wait_thread s) @ parameters_queue s"

lemmas async_ops = asyncReceiveFrom_def async_close_def async_bind_def take_request_def call_handler_def

lemma step_in_order:
  assumes "async_step s s'" "in_order s"
  shows "in_order s'"
  using assms
proof (induction rule: async_step.induct)
  case (take s s')
  then show ?case
    by (cases "parameters_queue s") (auto simp: in_order_def async_ops Let_def split: if_splits)
next
  case (handler u n s s')
  then show ?case
    by (cases "wait_thread s") (auto simp: in_order_def async_ops)
qed (auto simp: in_order_def async_ops split: if_splits)


section \<open>What the thread does with the queue\<close>

lemma take_open:
  "wait_thread s = Waiting_For_Request \<Longrightarrow> parameters_queue s = r # rs \<Longrightarrow> \<not> (rs = [] \<and> is_closed s) \<Longrightarrow>
     take_request s = Some (s\<lparr>parameters_queue := rs, wait_thread := Receiving r\<rparr>)"
  by (auto simp: take_request_def Let_def)

text \<open>
  C19: the thread serves every request of an open socket. With a waiting thread and some queued
  requests, after as many receive results the handler of each request has been called with the
  converted error and the size of its result, first come, first served, and the thread waits again.
\<close>

theorem wait_thread_serves:
  assumes "wait_thread s = Waiting_For_Request" and "\<not> is_closed s"
    and "length us = length (parameters_queue s)"
  shows "waitForData us s =
    s\<lparr>parameters_queue := [], wait_thread := Waiting_For_Request,
      handled := handled s @
        map (\<lambda>(r, u, n). (r, Some (toEcaludpError u, n))) (zip (parameters_queue s) us)\<rparr>"
  using assms
proof (induction us arbitrary: s)
  case Nil
  then show ?case by (subst waitForData.simps) (simp add: take_request_def)
next
  case (Cons u us)
  then obtain r rs where q: "parameters_queue s = r # rs" by (cases "parameters_queue s") auto
  obtain e n where u: "u = (e, n)" by (cases u)
  let ?s = "s\<lparr>parameters_queue := rs, wait_thread := Waiting_For_Request,
    handled := handled s @ [(r, Some (toEcaludpError e, n))]\<rparr>"
  have "waitForData (u # us) s = waitForData us ?s"
    using Cons.prems q by (subst waitForData.simps) (simp add: take_open call_handler_def u)
  with Cons.IH [of ?s] Cons.prems show ?case by (simp add: q u)
qed

theorem wait_thread_serves_witness:
  "handled (waitForData [(\<lparr>u_code = Udpcap_OK, u_message = [], u_string = []\<rparr>, 12)]
     (asyncReceiveFrom ''a'' (async_init\<lparr>wait_thread := Waiting_For_Request\<rparr>))) =
     [(''a'', Some (make_error OK [], 12))]"
  using wait_thread_serves [of "asyncReceiveFrom ''a'' (async_init\<lparr>wait_thread := Waiting_For_Request\<rparr>)"
      "[(\<lparr>u_code = Udpcap_OK, u_message = [], u_string = []\<rparr>, 12)]"]
  by (simp add: asyncReceiveFrom_def async_init_def toEcaludpError_def)

text \<open>
  C40: closing loses a handler. When the socket is closed while requests are queued, the thread
  calls the handlers of all of them but the last, which it takes from the queue and drops before
  it ends: its handler is never called.
\<close>

theorem close_drops_last_request:
  assumes "wait_thread s = Waiting_For_Request" and "is_closed s"
    and "parameters_queue s = rs @ [r]" and "length us = length rs"
  shows "waitForData us s =
    s\<lparr>parameters_queue := [], wait_thread := Finished,
      handled := handled s @
        map (\<lambda>(r, u, n). (r, Some (toEcaludpError u, n))) (zip rs us) @ [(r, None)]\<rparr>"
  using assms
proof (induction us arbitrary: s rs)
  case Nil
  then show ?case by (subst waitForData.simps) (simp add: take_request_def Let_def)
next
  case (Cons u us)
  then obtain x xs where rs: "rs = x # xs" by (cases rs) auto
  obtain e n where u: "u = (e, n)" by (cases u)
  let ?s = "s\<lparr>parameters_queue := xs @ [r], wait_thread := Waiting_For_Request,
    handled := handled s @ [(x, Some (toEcaludpError e, n))]\<rparr>"
  have "waitForData (u # us) s = waitForData us ?s"
    using Cons.prems rs by (subst waitForData.simps) (simp add: take_open call_handler_def u)
  with Cons.IH [of ?s xs] Cons.prems show ?case by (simp add: rs u)
qed

theorem close_drops_last_request_witness:
  "handled (waitForData [] (async_close (asyncReceiveFrom ''a''
     (async_init\<lparr>wait_thread := Waiting_For_Request\<rparr>)))) = [(''a'', None)]"
  using close_drops_last_request [of "async_close (asyncReceiveFrom ''a''
      (async_init\<lparr>wait_thread := Waiting_For_Request\<rparr>))" "[]" "''a''" "[]"]
  by (simp add: asyncReceiveFrom_def async_close_def async_init_def)

lemma waitForData_closed:
  assumes "wait_thread s = Waiting_For_Request" and "is_closed s"
    and "length (parameters_queue s) \<le> length us"
  shows "wait_thread (waitForData us s) = Finished \<and> parameters_queue (waitForData us s) = []"
  using assms
proof (induction us arbitrary: s)
  case Nil
  then show ?case by (subst (1 2) waitForData.simps) (simp add: take_request_def Let_def)
next
  case (Cons u us)
  obtain e n where u: "u = (e, n)" by (cases u)
  show ?case
  proof (cases "length (parameters_queue s) \<le> 1")
    case True
    then show ?thesis
      using Cons.prems
      by (cases "parameters_queue s"; subst (1 2) waitForData.simps)
        (auto simp: take_request_def Let_def call_handler_def u)
  next
    case False
    then obtain r rs where q: "parameters_queue s = r # rs" "rs \<noteq> []"
      by (cases "parameters_queue s") auto
    let ?s = "s\<lparr>parameters_queue := rs, wait_thread := Waiting_For_Request,
      handled := handled s @ [(r, Some (toEcaludpError e, n))]\<rparr>"
    have "waitForData (u # us) s = waitForData us ?s"
      using Cons.prems q by (subst waitForData.simps) (simp add: take_open call_handler_def u)
    with Cons.IH [of ?s] Cons.prems show ?thesis by (simp add: q)
  qed
qed




end
