(* ===== verification/Socket_Npcap.thy ===== *)
theory Socket_Npcap
  imports Socket Async_Udpcap
begin

text \<open>
  The socket on top of udpcap (src/ecaludp/include_with_udpcap/ecaludp/socket_npcap.h and
  src/ecaludp/src/socket_npcap.cpp), which only receives. Its handler of datagrams is written out a
  second time in the source, and so it is here; it is then shown to be the one of \<open>Socket\<close>.
  \<open>to_endpoint\<close> stands for the conversion of a udpcap address and port to an asio endpoint.
\<close>

record 'ep SocketNpcap =
  np_reassembly_v5 :: "'ep fragmented_package_map"
  np_magic_header_bytes :: magic
  np_max_reassembly_age :: int

definition new_socket_npcap :: "magic \<Rightarrow> 'ep SocketNpcap" where
  "new_socket_npcap m =
     \<lparr>np_reassembly_v5 = Map.empty, np_magic_header_bytes = m, np_max_reassembly_age = 5 * 10 ^ 9\<rparr>"

definition np_set_max_reassembly_age :: "int \<Rightarrow> 'ep SocketNpcap \<Rightarrow> 'ep SocketNpcap" where
  "np_set_max_reassembly_age age s = s\<lparr>np_max_reassembly_age := age\<rparr>"

definition np_get_max_reassembly_age :: "'ep SocketNpcap \<Rightarrow> int" where
  "np_get_max_reassembly_age s = np_max_reassembly_age s"

section \<open>Handling a datagram\<close>

definition npcap_handle_datagram ::
    "host \<Rightarrow> (nat \<Rightarrow> byte) \<Rightarrow> 'ep SocketNpcap \<Rightarrow> clocks \<Rightarrow> byte list \<Rightarrow> 'ep \<Rightarrow> Error \<Rightarrow>
     fault + OwningBuffer option \<times> Error \<times> 'ep SocketNpcap" where
  "npcap_handle_datagram h pool s t buffer ep error =
     (let s = s\<lparr>np_reassembly_v5 :=
                  remove_old_packages (clean_time t - np_max_reassembly_age s) (np_reassembly_v5 s)\<rparr>
      in if length buffer < sizeof_HeaderCommon
         then Inr (None,
           make_error MALFORMED_DATAGRAM
             (''Datagram too small to contain common header ('' @ to_string (length buffer) @ '' bytes)''), s)
         else if strncmp (header_magic buffer) (magic_bytes (np_magic_header_bytes s)) 4 \<noteq> 0
         then Inr (None, make_error MALFORMED_DATAGRAM ''Wrong magic bytes'', s)
         else
           (let version = unat (header_version buffer);
                handled =
                  (if version = 5
                   then (case handle_datagram h pool (access_time t) buffer ep error (np_reassembly_v5 s) of
                           Inl f \<Rightarrow> Inl f
                         | Inr (b, error, ps) \<Rightarrow> Inr (b, error, s\<lparr>np_reassembly_v5 := ps\<rparr>))
                   else if version = 6
                   then Inr (None, make_error UNSUPPORTED_PROTOCOL_VERSION (to_string version), s)
                   else Inr (None, make_error UNSUPPORTED_PROTOCOL_VERSION (to_string version), s))
            in (case handled of
                  Inl f \<Rightarrow> Inl f
                | Inr (b, error, s) \<Rightarrow>
                    if is_error error then Inr (None, error, s) else Inr (b, error, s))))"

section \<open>Receiving\<close>

type_synonym 'addr npcap_inbox = "(clocks \<times> 'addr udpcap_result) list"

datatype ('addr, 'ep) npcap_outcome =
    Npcap_Waiting "'ep SocketNpcap"
  | Npcap_Returned "OwningBuffer option" 'ep Error "'ep SocketNpcap" "'addr npcap_inbox"
  | Npcap_Failed fault

text \<open>
  The error object of the call is the one of the last receive; the error of the handler is another
  object, which is thrown away.
\<close>

fun npcap_receive_from ::
    "host \<Rightarrow> (nat \<Rightarrow> byte) \<Rightarrow> ('addr \<Rightarrow> 'ep) \<Rightarrow> 'ep SocketNpcap \<Rightarrow> 'ep \<Rightarrow> 'addr npcap_inbox \<Rightarrow>
     ('addr, 'ep) npcap_outcome" where
  "npcap_receive_from h pool to_endpoint s sender [] = Npcap_Waiting s"
| "npcap_receive_from h pool to_endpoint s sender ((t, r) # rs) =
     (let (bytes_received, addr, error) = receiveFrom r
      in if is_error error then Npcap_Returned None sender error s rs
         else
           (let buffer = take bytes_received (u_bytes r);
                ep = to_endpoint addr
            in (case npcap_handle_datagram h pool s t buffer ep (error_of_code GENERIC_ERROR) of
                  Inl f \<Rightarrow> Npcap_Failed f
                | Inr (Some b, handle_datagram_error, s) \<Rightarrow> Npcap_Returned (Some b) ep error s rs
                | Inr (None, handle_datagram_error, s) \<Rightarrow>
                    npcap_receive_from h pool to_endpoint s sender rs)))"

text \<open>The asynchronous variant passes the error of the handler on.\<close>

fun npcap_receive_next_datagram_from ::
    "host \<Rightarrow> (nat \<Rightarrow> byte) \<Rightarrow> ('addr \<Rightarrow> 'ep) \<Rightarrow> 'ep SocketNpcap \<Rightarrow> 'ep \<Rightarrow> 'addr npcap_inbox \<Rightarrow>
     ('addr, 'ep) npcap_outcome" where
  "npcap_receive_next_datagram_from h pool to_endpoint s sender [] = Npcap_Waiting s"
| "npcap_receive_next_datagram_from h pool to_endpoint s sender ((t, r) # rs) =
     (let error = toEcaludpError (u_error r)
      in if is_error error then Npcap_Returned None sender error s rs
         else
           (let buffer = u_bytes r;
                ep = to_endpoint (u_sender r)
            in (case npcap_handle_datagram h pool s t buffer ep (error_of_code GENERIC_ERROR) of
                  Inl f \<Rightarrow> Npcap_Failed f
                | Inr (Some b, datagam_handle_error, s) \<Rightarrow>
                    Npcap_Returned (Some b) ep datagam_handle_error s rs
                | Inr (None, datagam_handle_error, s) \<Rightarrow>
                    npcap_receive_next_datagram_from h pool to_endpoint s sender rs)))"

definition npcap_async_receive_from ::
    "host \<Rightarrow> (nat \<Rightarrow> byte) \<Rightarrow> ('addr \<Rightarrow> 'ep) \<Rightarrow> 'ep SocketNpcap \<Rightarrow> 'ep \<Rightarrow> 'addr npcap_inbox \<Rightarrow>
     ('addr, 'ep) npcap_outcome" where
  "npcap_async_receive_from h pool to_endpoint s sender rs =
     npcap_receive_next_datagram_from h pool to_endpoint s sender rs"

section \<open>The handler is the one of the other socket\<close>

definition as_socket :: "'ep SocketNpcap \<Rightarrow> 'ep Socket" where
  "as_socket s =
     \<lparr>reassembly_v5 = np_reassembly_v5 s, magic_header_bytes = np_magic_header_bytes s,
      max_udp_datagram_size = 1448, max_reassembly_age = np_max_reassembly_age s\<rparr>"

lemma as_socket_simps [simp]:
  "reassembly_v5 (as_socket s) = np_reassembly_v5 s"
  "magic_header_bytes (as_socket s) = np_magic_header_bytes s"
  "max_reassembly_age (as_socket s) = np_max_reassembly_age s"
  by (simp_all add: as_socket_def)

lemma as_socket_update: "as_socket (s\<lparr>np_reassembly_v5 := ps\<rparr>) = (as_socket s)\<lparr>reassembly_v5 := ps\<rparr>"
  by (simp add: as_socket_def)

lemma npcap_handler_eq:
  "map_sum id (\<lambda>(b, e, s). (b, e, as_socket s)) (npcap_handle_datagram h pool s t d ep err) =
     socket_handle_datagram h pool (as_socket s) t d ep err"
  by (auto simp: npcap_handle_datagram_def socket_handle_datagram_def Let_def as_socket_update
      split: sum.split)

section \<open>The receiving calls\<close>

definition npcap_handler ::
    "host \<Rightarrow> (nat \<Rightarrow> byte) \<Rightarrow> 'ep SocketNpcap \<Rightarrow> clocks \<Rightarrow> byte list \<Rightarrow> 'ep \<Rightarrow>
     fault + OwningBuffer option \<times> Error \<times> 'ep SocketNpcap" where
  "npcap_handler h pool s t d ep = npcap_handle_datagram h pool s t d ep (error_of_code GENERIC_ERROR)"

definition npcap_inv :: "'ep SocketNpcap \<Rightarrow> bool" where
  "npcap_inv s \<longleftrightarrow> socket_inv (as_socket s)"

definition npcap_adm :: "host \<Rightarrow> 'ep SocketNpcap \<Rightarrow> clocks \<Rightarrow> byte list \<Rightarrow> 'ep \<Rightarrow> bool" where
  "npcap_adm h s t d ep \<longleftrightarrow> socket_adm h (as_socket s) t d ep"

interpretation npcap: datagram_handler "npcap_handler h pool" npcap_inv "npcap_adm h"
  for h pool
proof
  fix s :: "'ep SocketNpcap" and t d and ep :: 'ep
  assume "npcap_inv s" and "npcap_adm h s t d ep"
  then obtain b e s' where "socket_handler h pool (as_socket s) t d ep = Inr (b, e, s')"
    "socket_inv s'" "pred_option valid_buffer b" "b \<noteq> None \<longrightarrow> err_code e = OK"
    using sock.handle_ok [of "as_socket s" h t d ep pool] by (auto simp: npcap_inv_def npcap_adm_def)
  with npcap_handler_eq [of h pool s t d ep "error_of_code GENERIC_ERROR"]
  show "\<exists>b e s'. npcap_handler h pool s t d ep = Inr (b, e, s') \<and> npcap_inv s' \<and>
      pred_option valid_buffer b \<and> (b \<noteq> None \<longrightarrow> err_code e = OK)"
    by (cases "npcap_handle_datagram h pool s t d ep (error_of_code GENERIC_ERROR)")
      (auto simp: npcap_handler_def socket_handler_def npcap_inv_def)
qed

text \<open>What the loops of both sockets see of a result of udpcap.\<close>

fun as_received :: "('addr \<Rightarrow> 'ep) \<Rightarrow> clocks \<times> 'addr udpcap_result \<Rightarrow> clocks \<times> ('ep, Error) received" where
  "as_received to_endpoint (t, r) =
     (t, if is_error (toEcaludpError (u_error r)) then Receive_Error (toEcaludpError (u_error r))
         else Datagram (u_bytes r) (to_endpoint (u_sender r)))"

fun as_outcome :: "('addr \<Rightarrow> 'ep) \<Rightarrow> ('addr, 'ep) npcap_outcome \<Rightarrow> ('ep, Error, 'ep SocketNpcap) receive_outcome" where
  "as_outcome to_endpoint (Npcap_Waiting s) = Waiting s"
| "as_outcome to_endpoint (Npcap_Returned b ep e s rs) =
     Returned b ep (if is_error e then Some e else None) s (map (as_received to_endpoint) rs)"
| "as_outcome to_endpoint (Npcap_Failed f) = Failed f"

abbreviation npcap_loop where
  "npcap_loop h pool to_endpoint s sender rs \<equiv>
     receive_loop (npcap_handler h pool) (\<lambda>_ _. False) s sender (map (as_received to_endpoint) rs)"

lemma npcap_receive_from_loop:
  "as_outcome to_endpoint (npcap_receive_from h pool to_endpoint s sender rs) =
     npcap_loop h pool to_endpoint s sender rs"
  by (induction h pool to_endpoint s sender rs rule: npcap_receive_from.induct)
    (auto simp: npcap_handler_def receiveFrom_def split: sum.split option.split)

lemma npcap_handler_ok:
  "npcap_handle_datagram h pool s t d ep err = Inr (Some b, e, s') \<Longrightarrow> err_code e = OK"
  by (auto simp: npcap_handle_datagram_def Let_def split: if_splits sum.splits prod.splits)

lemma npcap_async_loop:
  "as_outcome to_endpoint (npcap_async_receive_from h pool to_endpoint s sender rs) =
     npcap_loop h pool to_endpoint s sender rs"
  unfolding npcap_async_receive_from_def
  by (induction h pool to_endpoint s sender rs rule: npcap_receive_next_datagram_from.induct)
    (auto simp: npcap_handler_def dest: npcap_handler_ok split: sum.split option.split)

lemma npcap_async_rest:
  assumes "npcap_async_receive_from h pool to_endpoint s sender rs = Npcap_Returned b ep e s' rs'"
  shows "length rs' < length rs"
  using npcap_async_loop [of to_endpoint h pool s sender rs, symmetric]
  by (auto simp: assms dest!: receive_loop_rest)

lemma npcap_returned:
  "npcap_receive_from h pool to_endpoint s sender rs = Npcap_Returned b ep e s' rs' \<Longrightarrow>
     b \<noteq> None \<longleftrightarrow> err_code e = OK"
proof (induction h pool to_endpoint s sender rs rule: npcap_receive_from.induct)
  case (2 h pool to_endpoint s sender t r rs)
  then show ?case
    by (cases "npcap_handle_datagram h pool s t (u_bytes r) (to_endpoint (u_sender r)) (error_of_code GENERIC_ERROR)")
      (auto simp: receiveFrom_def split: if_splits option.splits)
qed simp

text \<open>
  The npcap socket receives safely. From a consistent state, whatever results udpcap returns (as
  long as no fragmentation info is truncating), \<^verbatim>\<open>receive_from\<close> never runs into undefined
  behaviour and leaves a consistent state; it returns a buffer exactly when its error object says
  OK, and the buffer is valid.
\<close>

lemma npcap_receive_safe:
  assumes "all_consistent (np_reassembly_v5 s)"
    and "admissible_inbox (npcap_handler h pool) (\<lambda>_ _. False) (npcap_adm h) s (map (as_received to_endpoint) rs)"
  shows "case npcap_receive_from h pool to_endpoint s sender rs of
      Npcap_Waiting s' \<Rightarrow> all_consistent (np_reassembly_v5 s')
    | Npcap_Returned b ep e s' rs' \<Rightarrow>
        all_consistent (np_reassembly_v5 s') \<and> pred_option valid_buffer b \<and> (b \<noteq> None \<longleftrightarrow> err_code e = OK)
    | Npcap_Failed f \<Rightarrow> False"
proof (cases "npcap_receive_from h pool to_endpoint s sender rs")
  case (Npcap_Returned b ep e s' rs')
  then show ?thesis
    using npcap.loop_ok [of s h pool "\<lambda>_ _. False" "map (as_received to_endpoint) rs" sender] assms
      npcap_receive_from_loop [of to_endpoint h pool s sender rs, symmetric] npcap_returned [OF Npcap_Returned]
    by (auto simp: npcap_inv_def socket_inv_def)
qed (use npcap.loop_ok [of s h pool "\<lambda>_ _. False" "map (as_received to_endpoint) rs" sender] assms
      npcap_receive_from_loop [of to_endpoint h pool s sender rs, symmetric]
    in \<open>auto simp: npcap_inv_def socket_inv_def\<close>)

text \<open>
  The synchronous and the asynchronous call of the npcap socket return the same: the buffer, the
  sender, whether there is an error, the pending packages and the datagrams left over.
\<close>

lemma npcap_variants_agree:
  "as_outcome to_endpoint (npcap_async_receive_from h pool to_endpoint s sender rs) =
     as_outcome to_endpoint (npcap_receive_from h pool to_endpoint s sender rs)"
  by (simp only: npcap_async_loop npcap_receive_from_loop)

end
