(* ===== verification/Header_V6.thy ===== *)
theory Header_V6
  imports Socket_Npcap
begin

text \<open>
  The structures of the next version of the protocol (src/ecaludp/src/protocol/header_v6.h), which no
  code writes yet: their fields with the initial values, and their bytes in memory, without
  padding. The sockets know the version and have to refuse it.
\<close>

record Header6 =
  v6_magic :: magic
  v6_version :: byte
  v6_header_size :: byte
  v6_flags :: byte
  v6_reserved :: byte
  v6_package_id :: u32

definition new_Header6 :: Header6 where
  "new_Header6 =
     \<lparr>v6_magic = (0, 0, 0, 0), v6_version = 0, v6_header_size = 0, v6_flags = 0, v6_reserved = 0, v6_package_id = 0\<rparr>"

record FragmentHeader6 =
  v6_total_length :: u32
  v6_fragment_offset :: u32

definition new_FragmentHeader6 :: FragmentHeader6 where
  "new_FragmentHeader6 = \<lparr>v6_total_length = 0, v6_fragment_offset = 0\<rparr>"

definition header6_bytes :: "host \<Rightarrow> Header6 \<Rightarrow> byte list" where
  "header6_bytes h x =
     magic_bytes (v6_magic x) @ [v6_version x, v6_header_size x, v6_flags x, v6_reserved x] @
     store_bytes h 4 (v6_package_id x)"

definition fragment_header6_bytes :: "host \<Rightarrow> FragmentHeader6 \<Rightarrow> byte list" where
  "fragment_header6_bytes h x = store_bytes h 4 (v6_total_length x) @ store_bytes h 4 (v6_fragment_offset x)"

lemma length_store_bytes [simp]: "length (store_bytes h n w) = n"
  by (simp add: store_bytes_def split: host.split)

lemma header6_sizes:
  "length (header6_bytes h x) = 12" "length (fragment_header6_bytes h y) = 8"
  by (simp_all add: header6_bytes_def fragment_header6_bytes_def length_magic_bytes)

text \<open>The fields that are common to all versions lie where the sockets look for them.\<close>

lemma header6_common:
  "header_magic (header6_bytes h x @ rest) = magic_bytes (v6_magic x)"
  "header_version (header6_bytes h x @ rest) = v6_version x"
  by (simp_all add: header6_bytes_def header_magic_def header_version_def slice_def layout length_magic_bytes nth_append)

text \<open>
  The next version of the protocol is refused. A datagram with a header of version 6 and the magic bytes of
  the socket, whatever its other fields and what follows the header, is dropped by both sockets with the error
  for an unsupported version and its number; it touches no pending message, apart from the removal of old ones.
\<close>

lemma version_6_refused:
  assumes "v6_version x = 6" "v6_magic x = magic_header_bytes s" "v6_magic x = np_magic_header_bytes np"
  shows "socket_handle_datagram h pool s t (header6_bytes h' x @ rest) ep err =
      Inr (None, make_error UNSUPPORTED_PROTOCOL_VERSION ''6'', s\<lparr>reassembly_v5 :=
        remove_old_packages (clean_time t - max_reassembly_age s) (reassembly_v5 s)\<rparr>) \<and>
    npcap_handle_datagram h pool np t (header6_bytes h' x @ rest) ep err =
      Inr (None, make_error UNSUPPORTED_PROTOCOL_VERSION ''6'', np\<lparr>np_reassembly_v5 :=
        remove_old_packages (clean_time t - np_max_reassembly_age np) (np_reassembly_v5 np)\<rparr>)"
proof -
  have "strncmp (magic_bytes m) (magic_bytes m) 4 = 0" for m
    using strncmp_iff [of "magic_bytes m" 4 "magic_bytes m"] by (simp add: length_magic_bytes)
  moreover have "to_string 6 = ''6''" by (simp add: to_string.simps char_of_def bit_Suc_0_iff)
  moreover have "\<not> length (header6_bytes h' x @ rest) < sizeof_HeaderCommon" by (simp add: header6_sizes layout)
  ultimately show ?thesis
    using assms
    by (simp add: socket_handle_datagram_def npcap_handle_datagram_def header6_common Let_def)
qed

end
