(* ===== verification/Socket_Api.thy ===== *)
theory Socket_Api
  imports Socket
begin

text \<open>
  The members of \<^verbatim>\<open>Socket\<close> that are defined in src/ecaludp/include/ecaludp/socket.h: those
  that pass a call on to the asio socket, and the overloads of sending for a single buffer. The asio
  socket is a parameter: an object with a state of its own that answers calls. Nearly every call exists
  twice, with an error code as an output parameter and throwing it as an exception.
\<close>

section \<open>The asio socket\<close>

text \<open>
  The calls, with the types of endpoints, protocols, options, control commands and shutdown types left
  open. An option that is asked for is an object the call fills, and so is a control command.
\<close>

datatype ('ep, 'proto, 'opt, 'cmd, 'what) asio_call =
    At_Mark
  | Available
  | Bind_To 'ep
  | Cancel
  | Close_Socket
  | Connect 'ep
  | Get_Option 'opt
  | Io_Control 'cmd
  | Local_Endpoint
  | Native_Non_Blocking bool
  | Open_Socket 'proto
  | Remote_Endpoint
  | Set_Option 'opt
  | Shutdown 'what

datatype ('ep, 'opt, 'cmd, 'ec) asio_value =
    Void
  | Code "'ec option"
  | Bool_Value bool
  | Size nat
  | Endpoint 'ep
  | Option_Value 'opt
  | Command_Value 'cmd

text \<open>
  \<open>with_code\<close> yields the value returned, what the call has filled (\<open>Void\<close> for nothing) and the error
  code; \<open>throwing\<close> either throws a code or yields the value returned and what was filled.
\<close>

record ('c, 'v, 'ec, 'as) asio_object =
  with_code :: "'c \<Rightarrow> 'as \<Rightarrow> ('v \<times> 'v \<times> 'ec option) \<times> 'as"
  throwing :: "'c \<Rightarrow> 'as \<Rightarrow> ('ec + 'v \<times> 'v) \<times> 'as"
  is_open_of :: "'as \<Rightarrow> bool"
  native_non_blocking_of :: "'as \<Rightarrow> bool"

type_synonym ('ep, 'proto, 'opt, 'cmd, 'what, 'ec, 'as) asio_udp =
  "(('ep, 'proto, 'opt, 'cmd, 'what) asio_call, ('ep, 'opt, 'cmd, 'ec) asio_value, 'ec, 'as) asio_object"

record ('ep, 'as) Asio_Socket = "'ep Socket" +
  underlying :: 'as

definition asio_socket :: "magic \<Rightarrow> 'as \<Rightarrow> ('ep, 'as) Asio_Socket" where
  "asio_socket m a = Socket.Socket.extend (new_socket m) \<lparr>underlying = a\<rparr>"

section \<open>Passing calls on\<close>

text \<open>
  The overloads that throw return what asio returns; the setters return nothing.
\<close>

definition api_throwing ::
    "('ep, 'proto, 'opt, 'cmd, 'what, 'ec, 'as) asio_udp \<Rightarrow> ('ep, 'proto, 'opt, 'cmd, 'what) asio_call \<Rightarrow> ('k, 'as) Asio_Socket \<Rightarrow>
     ('ec + ('ep, 'opt, 'cmd, 'ec) asio_value \<times> ('ep, 'opt, 'cmd, 'ec) asio_value) \<times> ('k, 'as) Asio_Socket" where
  "api_throwing asio c s =
     (let (r, a) = throwing asio c (underlying s);
          s = s\<lparr>underlying := a\<rparr>
      in case r of
           Inl ec \<Rightarrow> (Inl ec, s)
         | Inr (v, filled) \<Rightarrow>
             (case c of
                At_Mark \<Rightarrow> (Inr (v, filled), s)
              | Available \<Rightarrow> (Inr (v, filled), s)
              | Bind_To ep \<Rightarrow> (Inr (Void, filled), s)
              | Cancel \<Rightarrow> (Inr (Void, filled), s)
              | Close_Socket \<Rightarrow> (Inr (Void, filled), s)
              | Connect ep \<Rightarrow> (Inr (Void, filled), s)
              | Get_Option opt \<Rightarrow> (Inr (Void, filled), s)
              | Io_Control cmd \<Rightarrow> (Inr (Void, filled), s)
              | Local_Endpoint \<Rightarrow> (Inr (v, filled), s)
              | Native_Non_Blocking mode \<Rightarrow> (Inr (Void, filled), s)
              | Open_Socket p \<Rightarrow> (Inr (Void, filled), s)
              | Remote_Endpoint \<Rightarrow> (Inr (v, filled), s)
              | Set_Option opt \<Rightarrow> (Inr (Void, filled), s)
              | Shutdown what \<Rightarrow> (Inr (Void, filled), s)))"

text \<open>
  The overloads with an error code: the setters ignore what asio returns and return the code, except
  for \<^verbatim>\<open>get_option\<close>, \<^verbatim>\<open>io_control\<close> and \<^verbatim>\<open>native_non_blocking\<close>, which return what
  asio returns.
\<close>

definition api_with_code ::
    "('ep, 'proto, 'opt, 'cmd, 'what, 'ec, 'as) asio_udp \<Rightarrow> ('ep, 'proto, 'opt, 'cmd, 'what) asio_call \<Rightarrow> ('k, 'as) Asio_Socket \<Rightarrow>
     (('ep, 'opt, 'cmd, 'ec) asio_value \<times> ('ep, 'opt, 'cmd, 'ec) asio_value \<times> 'ec option) \<times> ('k, 'as) Asio_Socket" where
  "api_with_code asio c s =
     (let ((v, filled, ec), a) = with_code asio c (underlying s);
          s = s\<lparr>underlying := a\<rparr>
      in case c of
           At_Mark \<Rightarrow> ((v, filled, ec), s)
         | Available \<Rightarrow> ((v, filled, ec), s)
         | Bind_To ep \<Rightarrow> ((Code ec, filled, ec), s)
         | Cancel \<Rightarrow> ((Code ec, filled, ec), s)
         | Close_Socket \<Rightarrow> ((Code ec, filled, ec), s)
         | Connect ep \<Rightarrow> ((Code ec, filled, ec), s)
         | Get_Option opt \<Rightarrow> ((v, filled, ec), s)
         | Io_Control cmd \<Rightarrow> ((v, filled, ec), s)
         | Local_Endpoint \<Rightarrow> ((v, filled, ec), s)
         | Native_Non_Blocking mode \<Rightarrow> ((v, filled, ec), s)
         | Open_Socket p \<Rightarrow> ((Code ec, filled, ec), s)
         | Remote_Endpoint \<Rightarrow> ((v, filled, ec), s)
         | Set_Option opt \<Rightarrow> ((Code ec, filled, ec), s)
         | Shutdown what \<Rightarrow> ((Code ec, filled, ec), s))"

text \<open>The members that ask without failing.\<close>

definition is_open :: "('c, 'v, 'ec, 'as) asio_object \<Rightarrow> ('k, 'as) Asio_Socket \<Rightarrow> bool" where
  "is_open asio s = is_open_of asio (underlying s)"

definition native_non_blocking :: "('c, 'v, 'ec, 'as) asio_object \<Rightarrow> ('k, 'as) Asio_Socket \<Rightarrow> bool" where
  "native_non_blocking asio s = native_non_blocking_of asio (underlying s)"

section \<open>Sending a single buffer\<close>

definition send_buffer_to ::
    "host \<Rightarrow> memory \<Rightarrow> 'ep Socket \<Rightarrow> const_buffer \<Rightarrow> (nat \<Rightarrow> nat \<times> 'ec option) \<Rightarrow> 'ec option \<Rightarrow>
     int \<Rightarrow> id_state \<Rightarrow> (fault + (nat \<times> 'ec option \<times> byte list list) \<times> id_state) option" where
  "send_buffer_to h mem s buffer answer ec clock ids = send_to h mem s [buffer] answer ec clock ids"

definition async_send_buffer_to ::
    "host \<Rightarrow> memory \<Rightarrow> 'ep Socket \<Rightarrow> const_buffer \<Rightarrow> 'ec option list \<Rightarrow> int \<Rightarrow> id_state \<Rightarrow>
     (fault + 'ec send_action list \<times> id_state) option" where
  "async_send_buffer_to h mem s buffer ecs clock ids = async_send_to h mem s [buffer] ecs clock ids"

text \<open>What goes out depends on the bytes of the datagrams only.\<close>

lemma send_datagrams_cong:
  "map (datagram_bytes mem) ds = map (datagram_bytes mem') ds' \<Longrightarrow>
     send_datagrams mem answer i ds sent ec = send_datagrams mem' answer i ds' sent ec"
proof (induction mem answer i ds sent ec arbitrary: ds' rule: send_datagrams.induct)
  case (2 mem answer i d ds sent ec)
  then obtain d' ds1 where d': "ds' = d' # ds1" "datagram_bytes mem d = datagram_bytes mem' d'"
    "map (datagram_bytes mem) ds = map (datagram_bytes mem') ds1" by (auto simp: Cons_eq_map_conv)
  obtain n e where a: "answer i = (n, e)" by (cases "answer i")
  show ?case
  proof (cases e)
    case None
    with 2(1) [OF a [symmetric] refl refl _ d'(3)] a d' show ?thesis by simp
  qed (use a d' in simp)
qed simp

lemma async_send_datagrams_cong:
  "map (datagram_bytes mem) ds = map (datagram_bytes mem') ds' \<Longrightarrow>
     async_send_datagram_list_to mem ds ecs = async_send_datagram_list_to mem' ds' ecs"
  by (induction mem ds ecs arbitrary: ds' rule: async_send_datagram_list_to.induct)
    (auto simp: Cons_eq_map_conv split: list.split)

text \<open>
  C32: How a message is cut into buffers, where they lie, and on which host the message is sent does not
  matter: the overloads for a single buffer and for a sequence of buffers, synchronous or asynchronous,
  hand the same datagrams to asio, return the same and leave the id generator in the same state
  whenever the buffers hold the same bytes.
\<close>

theorem buffers_do_not_matter:
  assumes "builder_input mem bufs (max_udp_datagram_size s)" "builder_input mem' [b] (max_udp_datagram_size s)"
    and "message_bytes mem bufs = message_bytes mem' [b]"
  shows "send_to h mem s bufs answer ec clock ids = send_buffer_to h' mem' s b answer ec clock ids \<and>
    async_send_to h mem s bufs ecs clock ids = async_send_buffer_to h' mem' s b ecs clock ids"
proof -
  obtain dl ids1 where 1: "create_datagram_list h bufs (max_udp_datagram_size s) (magic_header_bytes s) clock ids =
      Some (Inr (dl, ids1))" "map (datagram_bytes mem) dl = wire_datagrams (magic_header_bytes s)
        (fst (next_message_id clock ids)) (max_udp_datagram_size s) (message_bytes mem' [b])"
    "ids1 = (if length (message_bytes mem' [b]) + sizeof_Header \<le> max_udp_datagram_size s then ids
      else snd (next_message_id clock ids))"
    using create_datagram_list_spec [OF assms(1), of h "magic_header_bytes s" clock ids] unfolding assms(3) by blast
  obtain dl' ids2 where 2: "create_datagram_list h' [b] (max_udp_datagram_size s) (magic_header_bytes s) clock ids =
      Some (Inr (dl', ids2))" "map (datagram_bytes mem') dl' = wire_datagrams (magic_header_bytes s)
        (fst (next_message_id clock ids)) (max_udp_datagram_size s) (message_bytes mem' [b])"
    "ids2 = (if length (message_bytes mem' [b]) + sizeof_Header \<le> max_udp_datagram_size s then ids
      else snd (next_message_id clock ids))"
    using create_datagram_list_spec [OF assms(2), of h' "magic_header_bytes s" clock ids] by blast
  from 1(2) 2(2) have eq: "map (datagram_bytes mem) dl = map (datagram_bytes mem') dl'" by simp
  have "send_to h mem s bufs answer ec clock ids = send_buffer_to h' mem' s b answer ec clock ids"
    using 1(1,3) 2(1,3) send_datagrams_cong [OF eq] by (simp add: send_to_def send_buffer_to_def)
  moreover have "async_send_to h mem s bufs ecs clock ids = async_send_buffer_to h' mem' s b ecs clock ids"
    using 1(1,3) 2(1,3) async_send_datagrams_cong [OF eq] by (simp add: async_send_to_def async_send_buffer_to_def)
  ultimately show ?thesis ..
qed

text \<open>Eight bytes in one buffer and in three, one of them empty.\<close>

theorem buffers_do_not_matter_witness:
  "let mem = (\<lambda>b. if b = 0 then [9, 1, 2, 3] else if b = 1 then [4, 5, 6, 7, 8] else [1, 2, 3, 4, 5, 6, 7, 8]);
       one = \<lparr>cb_data = User_Memory 2 0, cb_size = 8\<rparr>;
       three = [\<lparr>cb_data = User_Memory 0 1, cb_size = 3\<rparr>, \<lparr>cb_data = User_Memory 0 0, cb_size = 0\<rparr>,
         \<lparr>cb_data = User_Memory 1 0, cb_size = 5\<rparr>]
   in async_send_to Little_Endian mem (demo_socket :: string Socket) three [None :: nat option, None, None] 7 None =
      async_send_buffer_to Big_Endian mem demo_socket one [None, None, None] 7 None"
  unfolding Let_def
  by (rule buffers_do_not_matter [THEN conjunct2])
    (simp_all add: builder_input_def user_buffers_def message_bytes_def buffer_content_def slice_def layout)

section \<open>Sequences of calls\<close>

text \<open>A call with the overload that is used: \<open>True\<close> for the one that throws.\<close>

datatype ('v, 'ec) api_result = Thrown 'ec | Returned_Value 'v 'v | Returned_With_Code 'v 'v "'ec option"

fun api_run ::
    "('ep, 'proto, 'opt, 'cmd, 'what, 'ec, 'as) asio_udp \<Rightarrow> (bool \<times> ('ep, 'proto, 'opt, 'cmd, 'what) asio_call) list \<Rightarrow>
     ('k, 'as) Asio_Socket \<Rightarrow> (('ep, 'opt, 'cmd, 'ec) asio_value, 'ec) api_result list \<times> ('k, 'as) Asio_Socket" where
  "api_run asio [] s = ([], s)"
| "api_run asio ((throws, c) # cs) s =
     (let (r, s) =
            (if throws
             then (case api_throwing asio c s of
                     (Inl ec, s) \<Rightarrow> (Thrown ec, s)
                   | (Inr (v, filled), s) \<Rightarrow> (Returned_Value v filled, s))
             else (case api_with_code asio c s of ((v, filled, ec), s) \<Rightarrow> (Returned_With_Code v filled ec, s)));
          (rs, s) = api_run asio cs s
      in (r # rs, s))"

text \<open>The same calls on the asio socket alone, always with an error code.\<close>

fun asio_run ::
    "('c, 'v, 'ec, 'as) asio_object \<Rightarrow> 'c list \<Rightarrow> 'as \<Rightarrow> ('v \<times> 'v \<times> 'ec option) list \<times> 'as" where
  "asio_run asio [] a = ([], a)"
| "asio_run asio (c # cs) a =
     (let (r, a) = with_code asio c a; (rs, a) = asio_run asio cs a in (r # rs, a))"

text \<open>
  What asio documents: the calls that have nothing to return hand back the error code, and the overload
  that throws does the same as the other one, and throws the code if there is one.
\<close>

definition getter :: "('ep, 'proto, 'opt, 'cmd, 'what) asio_call \<Rightarrow> bool" where
  "getter c \<longleftrightarrow> (case c of At_Mark \<Rightarrow> True | Available \<Rightarrow> True | Local_Endpoint \<Rightarrow> True | Remote_Endpoint \<Rightarrow> True | _ \<Rightarrow> False)"

definition asio_documented :: "('ep, 'proto, 'opt, 'cmd, 'what, 'ec, 'as) asio_udp \<Rightarrow> bool" where
  "asio_documented asio \<longleftrightarrow>
     (\<forall>c a v filled ec a'. with_code asio c a = ((v, filled, ec), a') \<longrightarrow>
        (getter c \<or> v = Code ec) \<and>
        throwing asio c a =
          (case ec of None \<Rightarrow> Inr (if getter c then v else Void, filled) | Some ec \<Rightarrow> Inl ec, a'))"

definition api_result ::
    "bool \<times> ('ep, 'proto, 'opt, 'cmd, 'what) asio_call \<Rightarrow>
     ('ep, 'opt, 'cmd, 'ec) asio_value \<times> ('ep, 'opt, 'cmd, 'ec) asio_value \<times> 'ec option \<Rightarrow>
     (('ep, 'opt, 'cmd, 'ec) asio_value, 'ec) api_result" where
  "api_result tc r =
     (case (tc, r) of
        ((throws, c), (v, filled, ec)) \<Rightarrow>
          if \<not> throws then Returned_With_Code (if getter c then v else Code ec) filled ec
          else (case ec of Some ec \<Rightarrow> Thrown ec | None \<Rightarrow> Returned_Value (if getter c then v else Void) filled))"

lemma api_with_code_documented:
  assumes "asio_documented asio" "with_code asio c (underlying s) = ((v, filled, ec), a)"
  shows "api_with_code asio c s = ((if getter c then v else Code ec, filled, ec), s\<lparr>underlying := a\<rparr>)"
proof -
  have "getter c \<or> v = Code ec" using assms unfolding asio_documented_def by blast
  with assms(2) show ?thesis by (cases c) (simp_all add: api_with_code_def getter_def)
qed

lemma api_throwing_documented:
  assumes "asio_documented asio" "with_code asio c (underlying s) = ((v, filled, ec), a)"
  shows "api_throwing asio c s =
    (case ec of None \<Rightarrow> Inr (if getter c then v else Void, filled) | Some ec \<Rightarrow> Inl ec, s\<lparr>underlying := a\<rparr>)"
proof -
  have "throwing asio c (underlying s) =
      (case ec of None \<Rightarrow> Inr (if getter c then v else Void, filled) | Some ec \<Rightarrow> Inl ec, a)"
    using assms unfolding asio_documented_def by blast
  then show ?thesis by (cases c; cases ec) (simp_all add: api_throwing_def getter_def)
qed

text \<open>
  The members of \<^verbatim>\<open>Socket\<close> that pass calls on are transparent. Whatever sequence of them
  is called, each in either overload, the asio socket ends in the state of the same calls made on it
  directly, every call hands back what asio has answered in the way of the overload (the value or the
  code, or an exception exactly when there is an error), and nothing else of the socket changes: not
  the pending messages, nor the settings.
\<close>

lemma socket_api_transparent:
  assumes "asio_documented asio"
  shows "api_run asio cs s =
    (map2 api_result cs (fst (asio_run asio (map snd cs) (underlying s))),
     s\<lparr>underlying := snd (asio_run asio (map snd cs) (underlying s))\<rparr>)"
proof (induction cs arbitrary: s)
  case (Cons tc cs)
  obtain throws c where tc: "tc = (throws, c)" by (cases tc)
  obtain v filled ec a where w: "with_code asio c (underlying s) = ((v, filled, ec), a)" by (metis prod.exhaust)
  note api_with_code_documented [OF assms w] api_throwing_documented [OF assms w]
  with Cons.IH [of "s\<lparr>underlying := a\<rparr>"] w tc show ?case
    by (cases throws; cases ec) (simp_all add: api_result_def case_prod_unfold Let_def)
qed simp

text \<open>An asio socket that is open or not, and has no data.\<close>

definition demo_asio :: "(nat, nat, nat, nat, nat, nat, bool) asio_udp" where
  "demo_asio =
     (let answer = (\<lambda>c a.
            case c of
              Open_Socket p \<Rightarrow> ((Code None, Void, None), True)
            | Close_Socket \<Rightarrow> ((Code None, Void, None), False)
            | Available \<Rightarrow> ((Size 0, Void, if a then None else Some 9), a)
            | c \<Rightarrow> ((if getter c then Void else Code (Some 9), Void, Some 9), a))
      in \<lparr>with_code = answer,
          throwing = (\<lambda>c a. case answer c a of
            ((v, filled, ec), a) \<Rightarrow> (case ec of None \<Rightarrow> Inr (if getter c then v else Void, filled) | Some ec \<Rightarrow> Inl ec, a)),
          is_open_of = (\<lambda>a. a), native_non_blocking_of = (\<lambda>a. False)\<rparr>)"

lemma demo_asio_documented: "asio_documented demo_asio"
  by (auto simp: asio_documented_def demo_asio_def getter_def Let_def split: asio_call.splits if_splits prod.splits)

end
