(* ===== verification/Perftool_Args.thy ===== *)
theory Perftool_Args
  imports Prelude
begin

text \<open>
  The command line of the performance tool (src/samples/ecaludp_perftool/src/main.cpp,
  sender_parameters.h and receiver_parameters.h): the parameters, their defaults and their printing,
  the parsing of the options with every early return of \<^verbatim>\<open>main\<close>, and the choice of the
  implementation that is started. \<open>w\<close> is the number of bits of an \<^verbatim>\<open>unsigned long\<close> (64, or
  32 on Windows), \<open>what\<close> the text an exception of the standard library carries.
\<close>

section \<open>Parameters\<close>

record SenderParameters =
  s_ip :: string
  s_port :: u16
  s_message_size :: nat
  s_max_udp_datagram_size :: int
  s_buffer_size :: int

record ReceiverParameters =
  r_ip :: string
  r_port :: u16
  r_buffer_size :: int

definition default_sender_parameters :: SenderParameters where
  "default_sender_parameters =
     \<lparr>s_ip = ''127.0.0.1'', s_port = 14000, s_message_size = 0, s_max_udp_datagram_size = - 1,
      s_buffer_size = - 1\<rparr>"

definition default_receiver_parameters :: ReceiverParameters where
  "default_receiver_parameters = \<lparr>r_ip = ''127.0.0.1'', r_port = 14000, r_buffer_size = - 1\<rparr>"

abbreviation newline :: string where
  "newline \<equiv> [CHR 0x0A]"

definition or_default :: "int \<Rightarrow> string" where
  "or_default i = (if i > 0 then to_string_int i else ''default'')"

definition sender_to_string :: "SenderParameters \<Rightarrow> string" where
  "sender_to_string p =
     ''SenderParameters: '' @ newline @
     ''  ip:                    '' @ s_ip p @ newline @
     ''  port:                  '' @ to_string (unat (s_port p)) @ newline @
     ''  message_size:          '' @ to_string (s_message_size p) @ newline @
     ''  max_udp_datagram_size: '' @ or_default (s_max_udp_datagram_size p) @ newline @
     ''  buffer_size:           '' @ or_default (s_buffer_size p) @ newline"

definition receiver_to_string :: "ReceiverParameters \<Rightarrow> string" where
  "receiver_to_string p =
     ''Receiver Parameters: '' @ newline @
     ''  IP:          '' @ r_ip p @ newline @
     ''  Port:        '' @ to_string (unat (r_port p)) @ newline @
     ''  Buffer Size: '' @ or_default (r_buffer_size p) @ newline"

section \<open>std::stoul and the conversion to int\<close>

datatype stoul_exception = Stoul_Invalid_Argument | Stoul_Out_Of_Range

definition is_space :: "char \<Rightarrow> bool" where
  "is_space c \<longleftrightarrow> (of_char c :: nat) = 32 \<or> 9 \<le> (of_char c :: nat) \<and> (of_char c :: nat) \<le> 13"

definition is_digit :: "char \<Rightarrow> bool" where
  "is_digit c \<longleftrightarrow> 48 \<le> (of_char c :: nat) \<and> (of_char c :: nat) \<le> 57"

definition digits_value :: "string \<Rightarrow> nat" where
  "digits_value ds = foldl (\<lambda>a c. 10 * a + (of_char c - 48)) 0 ds"

definition stoul :: "nat \<Rightarrow> string \<Rightarrow> stoul_exception + nat" where
  "stoul w str =
     (let s = dropWhile is_space str;
          negative = (s \<noteq> [] \<and> hd s = CHR ''-'');
          s = (if s \<noteq> [] \<and> (hd s = CHR ''-'' \<or> hd s = CHR ''+'') then tl s else s);
          ds = takeWhile is_digit s;
          n = digits_value ds
      in if ds = [] then Inl Stoul_Invalid_Argument
         else if 2 ^ w \<le> n then Inl Stoul_Out_Of_Range
         else Inr (if negative then (2 ^ w - n) mod 2 ^ w else n))"

text \<open>An \<^verbatim>\<open>unsigned long\<close> assigned to an \<^verbatim>\<open>int\<close> keeps its low 32 bits.\<close>

definition as_int :: "nat \<Rightarrow> int" where
  "as_int n = signed_take_bit 31 (int n)"

section \<open>Options\<close>

text \<open>The iterator \<^verbatim>\<open>std::find\<close> returns is the rest of the list; at the end it is empty.\<close>

definition find_arg :: "string \<Rightarrow> string list \<Rightarrow> string list" where
  "find_arg name args = dropWhile (\<lambda>a. a \<noteq> name) args"

definition find_option :: "string \<Rightarrow> string \<Rightarrow> string list \<Rightarrow> string list" where
  "find_option name alternative args =
     (let it = find_arg name args in if it = [] then find_arg alternative args else it)"

type_synonym parameters = "SenderParameters \<times> ReceiverParameters"

text \<open>\<open>Inl\<close> is the text on stderr of a run that ends with exit code 1.\<close>

definition parse_ip :: "string list \<Rightarrow> parameters \<Rightarrow> string + parameters" where
  "parse_ip args p =
     (case find_option ''--ip'' ''-i'' args of
        [] \<Rightarrow> Inr p
      | [_] \<Rightarrow> Inl (''Error: --ip requires an argument'' @ newline)
      | _ # v # _ \<Rightarrow> (case p of (sp, rp) \<Rightarrow> Inr (sp\<lparr>s_ip := v\<rparr>, rp\<lparr>r_ip := v\<rparr>)))"

definition parse_port ::
    "nat \<Rightarrow> (stoul_exception \<Rightarrow> string) \<Rightarrow> string list \<Rightarrow> parameters \<Rightarrow> string + parameters" where
  "parse_port w what args p =
     (case find_option ''--port'' ''-p'' args of
        [] \<Rightarrow> Inr p
      | [_] \<Rightarrow> Inl (''Error: --port requires an argument'' @ newline)
      | _ # v # _ \<Rightarrow>
          (case stoul w v of
             Inl e \<Rightarrow> Inl (''Error: --port requires a numeric argument: '' @ what e @ newline)
           | Inr port \<Rightarrow>
               if port > 65535 then Inl (''Error: --port out of range'' @ newline)
               else (case p of (sp, rp) \<Rightarrow> Inr (sp\<lparr>s_port := of_nat port\<rparr>, rp\<lparr>r_port := of_nat port\<rparr>))))"

definition parse_size ::
    "nat \<Rightarrow> (stoul_exception \<Rightarrow> string) \<Rightarrow> string list \<Rightarrow> parameters \<Rightarrow> string + parameters" where
  "parse_size w what args p =
     (case find_option ''-s'' ''--size'' args of
        [] \<Rightarrow> Inr p
      | [_] \<Rightarrow> Inl (''Error: -s / --size requires an argument'' @ newline)
      | _ # v # _ \<Rightarrow>
          (case stoul w v of
             Inl e \<Rightarrow> Inl (''Error: -s / --size requires a numeric argument: '' @ what e @ newline)
           | Inr n \<Rightarrow> (case p of (sp, rp) \<Rightarrow> Inr (sp\<lparr>s_message_size := n\<rparr>, rp))))"

definition parse_max_udp_datagram_size ::
    "nat \<Rightarrow> (stoul_exception \<Rightarrow> string) \<Rightarrow> string list \<Rightarrow> parameters \<Rightarrow> string + parameters" where
  "parse_max_udp_datagram_size w what args p =
     (case find_option ''-m'' ''--max-udp-datagram-size'' args of
        [] \<Rightarrow> Inr p
      | [_] \<Rightarrow> Inl (''Error: -m / --max-udp-datagram-size requires an argument'' @ newline)
      | _ # v # _ \<Rightarrow>
          (case stoul w v of
             Inl e \<Rightarrow>
               Inl (''Error: -m / --max-udp-datagram-size requires a numeric argument: '' @ what e @ newline)
           | Inr n \<Rightarrow> (case p of (sp, rp) \<Rightarrow> Inr (sp\<lparr>s_max_udp_datagram_size := as_int n\<rparr>, rp))))"

definition parse_buffer_size ::
    "nat \<Rightarrow> (stoul_exception \<Rightarrow> string) \<Rightarrow> string list \<Rightarrow> parameters \<Rightarrow> string + parameters" where
  "parse_buffer_size w what args p =
     (case find_option ''--buffer-size'' ''-b'' args of
        [] \<Rightarrow> Inr p
      | [_] \<Rightarrow> Inl (''Error: --buffer-size requires an argument'' @ newline)
      | _ # v # _ \<Rightarrow>
          (case stoul w v of
             Inl e \<Rightarrow> Inl (''Error: --buffer-size requires a numeric argument: '' @ what e @ newline)
           | Inr n \<Rightarrow>
               (case p of (sp, rp) \<Rightarrow>
                  Inr (sp\<lparr>s_buffer_size := as_int n\<rparr>, rp\<lparr>r_buffer_size := as_int n\<rparr>))))"

section \<open>main\<close>

datatype Implementation = NONE | SEND | SENDASYNC | RECEIVE | RECEIVEASYNC | RECEIVENPCAP | RECEIVENPCAPASYNC

definition parse_implementation :: "string \<Rightarrow> Implementation option" where
  "parse_implementation arg1 =
     (if arg1 = ''send'' then Some SEND
      else if arg1 = ''sendasync'' then Some SENDASYNC
      else if arg1 = ''receive'' then Some RECEIVE
      else if arg1 = ''receiveasync'' then Some RECEIVEASYNC
      else if arg1 = ''receivenpcap'' then Some RECEIVENPCAP
      else if arg1 = ''receivenpcapasync'' then Some RECEIVENPCAPASYNC
      else None)"

definition printUsage :: "string \<Rightarrow> string" where
  "printUsage arg0 =
     ''Usage:'' @ newline @
     ''  '' @ arg0 @ '' <IMPLEMENTATION> [PARAMETERS]'' @ newline @
     newline @
     ''With IMPLEMENTATION one of:'' @ newline @
     ''  send                Asio-based sender using send_to in a while-loop'' @ newline @
     ''  sendasync           Asio-based sender using async_send_to'' @ newline @
     ''  receive             Asio-based receiver using receive_from in a while-loop'' @ newline @
     ''  receiveasync        Asio-based receiver using async_receive_from'' @ newline @
     ''  receivenpcap        Npcap-based receiver using receive_from in a while-loop'' @ newline @
     ''  receivenpcapasync   Npcap-based receiver using async_receive_from'' @ newline @
     newline @
     ''Options:'' @ newline @
     ''  -h, --help  Show this help message and exit'' @ newline @
     newline @
     ''  -i, --ip <IP> IP address to send to / receive from. Default to 127.0.0.1'' @ newline @
     ''  -p, --port <PORT> Port to send to / receive from. Default to 14000'' @ newline @
     ''  -s, --size <SIZE> Message size to send. Default to 0 (-> empty messages)'' @ newline @
     ''  -m, --max-udp-datagram-size <SIZE> Maximum UDP datagram size'' @ newline @
     ''  -b, --buffer-size <SIZE> Buffer size for sending & receiving messages'' @ newline @
     newline"

text \<open>What is started, with its parameters; \<open>Started_Nothing\<close> sleeps for ever.\<close>

datatype started =
    Started_Nothing
  | SenderSync SenderParameters
  | SenderAsync SenderParameters
  | ReceiverSync ReceiverParameters
  | ReceiverAsync ReceiverParameters
  | ReceiverNpcapSync ReceiverParameters
  | ReceiverNpcapAsync ReceiverParameters

text \<open>\<open>Exit\<close> holds the exit code, the text on stdout and the text on stderr.\<close>

datatype main_outcome =
    Main_Fault fault
  | Exit int string string
  | Start started

definition run_implementation :: "bool \<Rightarrow> Implementation \<Rightarrow> parameters \<Rightarrow> main_outcome" where
  "run_implementation udpcap_enabled impl p =
     (case p of (sp, rp) \<Rightarrow>
       (case impl of
          NONE \<Rightarrow> Start Started_Nothing
        | SEND \<Rightarrow> Start (SenderSync sp)
        | SENDASYNC \<Rightarrow> Start (SenderAsync sp)
        | RECEIVE \<Rightarrow> Start (ReceiverSync rp)
        | RECEIVEASYNC \<Rightarrow> Start (ReceiverAsync rp)
        | RECEIVENPCAP \<Rightarrow>
            if udpcap_enabled then Start (ReceiverNpcapSync rp)
            else Exit 1 [] (''Error: Npcap-based receiver not enabled'' @ newline)
        | RECEIVENPCAPASYNC \<Rightarrow>
            if udpcap_enabled then Start (ReceiverNpcapAsync rp)
            else Exit 1 [] (''Error: Npcap-based receiver not enabled'' @ newline)))"

definition and_then :: "'e + 'a \<Rightarrow> ('a \<Rightarrow> 'e + 'b) \<Rightarrow> 'e + 'b" where
  "and_then r f = (case r of Inl e \<Rightarrow> Inl e | Inr x \<Rightarrow> f x)"

definition parse_options ::
    "nat \<Rightarrow> (stoul_exception \<Rightarrow> string) \<Rightarrow> string list \<Rightarrow> string + parameters" where
  "parse_options w what args =
     and_then (and_then (and_then (and_then
       (parse_ip args (default_sender_parameters, default_receiver_parameters))
       (parse_port w what args))
       (parse_size w what args))
       (parse_max_udp_datagram_size w what args))
       (parse_buffer_size w what args)"

text \<open>With no argument at all, not even the name of the program, \<^verbatim>\<open>args[0]\<close> is out of bounds.\<close>

definition perftool_main ::
    "nat \<Rightarrow> (stoul_exception \<Rightarrow> string) \<Rightarrow> bool \<Rightarrow> string list \<Rightarrow> main_outcome" where
  "perftool_main w what udpcap_enabled args =
     (if length args < 2 \<or> find_arg ''-h'' args \<noteq> [] \<or> find_arg ''--help'' args \<noteq> []
      then (case args of [] \<Rightarrow> Main_Fault Out_Of_Bounds_Read | arg0 # _ \<Rightarrow> Exit 0 (printUsage arg0) [])
      else
        (case parse_implementation (args ! 1) of
           None \<Rightarrow> Exit 1 (printUsage (args ! 0)) []
         | Some impl \<Rightarrow>
             (case parse_options w what args of
                Inl message \<Rightarrow> Exit 1 [] message
              | Inr p \<Rightarrow> run_implementation udpcap_enabled impl p)))"

section \<open>Reading numbers\<close>

lemma digit_char [simp]:
  "d < 10 \<Longrightarrow> (of_char (char_of (48 + d) :: char) :: nat) = 48 + d"
  by simp

lemma is_digit_char: "d < 10 \<Longrightarrow> is_digit (char_of (48 + d :: nat))"
  by (simp add: is_digit_def)

lemma digits_of_to_string: "list_all is_digit (to_string n)"
proof (induction n rule: to_string.induct)
  case (1 n)
  then show ?case
    by (subst to_string.simps) (auto simp: is_digit_char simp del: of_char_of)
qed

lemma digits_value_to_string: "digits_value (to_string n) = n"
proof (induction n rule: to_string.induct)
  case (1 n)
  show ?case
  proof (cases "n < 10")
    case True
    then show ?thesis by (subst to_string.simps) (simp add: digits_value_def)
  next
    case False
    with 1 show ?thesis
      by (subst to_string.simps) (simp add: digits_value_def del: of_char_of)
  qed
qed

lemma digit_no_space: "is_digit c \<Longrightarrow> \<not> is_space c \<and> c \<noteq> CHR ''-'' \<and> c \<noteq> CHR ''+''"
  by (auto simp: is_digit_def is_space_def)

lemma stoul_to_string:
  assumes "n < 2 ^ w"
  shows "stoul w (to_string n) = Inr n"
proof -
  obtain c cs where s: "to_string n = c # cs"
    using to_string_nonempty [of n] by (cases "to_string n") auto
  then have "is_digit c" using digits_of_to_string [of n] by simp
  moreover have "takeWhile is_digit cs = cs"
    using digits_of_to_string [of n] unfolding s by (simp add: list_all_iff takeWhile_eq_all_conv)
  ultimately show ?thesis
    using assms digits_value_to_string [of n] digit_no_space [of c] unfolding s
    by (simp add: stoul_def Let_def del: takeWhile_eq_all_conv)
qed

lemma stoul_bound: "stoul w v = Inr n \<Longrightarrow> n < 2 ^ w"
  by (auto simp: stoul_def Let_def split: if_splits)

lemma as_int_eq: "as_int n = (int n + 2147483648) mod 4294967296 - 2147483648"
  by (simp add: as_int_def signed_take_bit_eq_take_bit_shift take_bit_eq_mod)

lemma as_int_small: "n < 2 ^ 31 \<Longrightarrow> as_int n = int n"
  unfolding as_int_eq by (subst mod_pos_pos_trivial) auto

lemma as_int_large:
  assumes "2 ^ 31 \<le> n" "n < 2 ^ 32"
  shows "as_int n = int n - 2 ^ 32"
proof -
  have "(int n + 2147483648) mod 4294967296 = (int n - 2147483648 + 4294967296) mod 4294967296"
    by (simp add: add.commute)
  also have "\<dots> = int n - 2147483648"
    using assms by (subst mod_add_self2, subst mod_pos_pos_trivial) auto
  finally show ?thesis by (simp add: as_int_eq)
qed

section \<open>Options\<close>

lemma find_arg_Nil [simp]: "find_arg a [] = []"
  by (simp add: find_arg_def)

lemma find_arg_Cons [simp]: "find_arg a (x # xs) = (if x = a then x # xs else find_arg a xs)"
  by (simp add: find_arg_def)

lemma find_arg_empty: "find_arg a args = [] \<longleftrightarrow> a \<notin> set args"
  by (auto simp: find_arg_def dropWhile_eq_Nil_conv)

text \<open>What follows an option: nothing where it is missing, no value where it comes last.\<close>

definition option_value :: "string \<Rightarrow> string \<Rightarrow> string list \<Rightarrow> string option option" where
  "option_value a b args =
     (case find_option a b args of [] \<Rightarrow> None | [_] \<Rightarrow> Some None | _ # v # _ \<Rightarrow> Some (Some v))"

definition option_ok :: "(string \<Rightarrow> bool) \<Rightarrow> string option option \<Rightarrow> bool" where
  "option_ok P ov \<longleftrightarrow> pred_option (\<lambda>v. v \<noteq> None \<and> pred_option P v) ov"

definition numeric :: "nat \<Rightarrow> nat \<Rightarrow> string \<Rightarrow> bool" where
  "numeric w limit v \<longleftrightarrow> (case stoul w v of Inl e \<Rightarrow> False | Inr n \<Rightarrow> n < limit)"

definition number_of :: "nat \<Rightarrow> nat \<Rightarrow> string option option \<Rightarrow> nat" where
  "number_of w d ov =
     (case ov of Some (Some v) \<Rightarrow> (case stoul w v of Inl e \<Rightarrow> d | Inr n \<Rightarrow> n) | _ \<Rightarrow> d)"

text \<open>The parameters a command line stands for, and the condition under which it is accepted.\<close>

definition given_parameters :: "nat \<Rightarrow> string list \<Rightarrow> parameters" where
  "given_parameters w args =
     (let ip = (case option_value ''--ip'' ''-i'' args of Some (Some v) \<Rightarrow> v | _ \<Rightarrow> ''127.0.0.1'');
          port = of_nat (number_of w 14000 (option_value ''--port'' ''-p'' args));
          int_option = (\<lambda>a b. if option_value a b args = None then - 1
                              else as_int (number_of w 0 (option_value a b args)))
      in (\<lparr>s_ip = ip, s_port = port,
           s_message_size = number_of w 0 (option_value ''-s'' ''--size'' args),
           s_max_udp_datagram_size = int_option ''-m'' ''--max-udp-datagram-size'',
           s_buffer_size = int_option ''--buffer-size'' ''-b''\<rparr>,
          \<lparr>r_ip = ip, r_port = port, r_buffer_size = int_option ''--buffer-size'' ''-b''\<rparr>))"

definition options_ok :: "nat \<Rightarrow> string list \<Rightarrow> bool" where
  "options_ok w args \<longleftrightarrow>
     option_ok (\<lambda>_. True) (option_value ''--ip'' ''-i'' args) \<and>
     option_ok (numeric w (2 ^ 16)) (option_value ''--port'' ''-p'' args) \<and>
     option_ok (numeric w (2 ^ w)) (option_value ''-s'' ''--size'' args) \<and>
     option_ok (numeric w (2 ^ w)) (option_value ''-m'' ''--max-udp-datagram-size'' args) \<and>
     option_ok (numeric w (2 ^ w)) (option_value ''--buffer-size'' ''-b'' args)"

lemma numeric_bound: "numeric w (2 ^ w) v \<longleftrightarrow> (\<exists>n. stoul w v = Inr n)"
  by (auto simp: numeric_def stoul_bound split: sum.splits)

lemmas option_defs = option_value_def option_ok_def numeric_bound number_of_def

text \<open>Each option either is wrong or sets its fields.\<close>

abbreviation outcome_of :: "bool \<Rightarrow> parameters \<Rightarrow> string + parameters \<Rightarrow> bool" where
  "outcome_of ok p r \<equiv> (if ok then r = Inr p else \<exists>message. r = Inl message)"

lemma parse_ip_outcome:
  "outcome_of (option_ok (\<lambda>_. True) (option_value ''--ip'' ''-i'' args))
     (case option_value ''--ip'' ''-i'' args of
        Some (Some v) \<Rightarrow> (sp\<lparr>s_ip := v\<rparr>, rp\<lparr>r_ip := v\<rparr>) | _ \<Rightarrow> (sp, rp))
     (parse_ip args (sp, rp))"
  by (auto simp: parse_ip_def option_defs split: list.split)

lemma parse_port_outcome:
  "outcome_of (option_ok (numeric w (2 ^ 16)) (option_value ''--port'' ''-p'' args))
     (if option_value ''--port'' ''-p'' args = None then (sp, rp)
      else (sp\<lparr>s_port := of_nat (number_of w 0 (option_value ''--port'' ''-p'' args))\<rparr>,
            rp\<lparr>r_port := of_nat (number_of w 0 (option_value ''--port'' ''-p'' args))\<rparr>))
     (parse_port w what args (sp, rp))"
  by (auto simp: parse_port_def option_value_def option_ok_def numeric_def number_of_def
      split: list.split sum.splits)

lemma parse_size_outcome:
  "outcome_of (option_ok (numeric w (2 ^ w)) (option_value ''-s'' ''--size'' args))
     (if option_value ''-s'' ''--size'' args = None then (sp, rp)
      else (sp\<lparr>s_message_size := number_of w 0 (option_value ''-s'' ''--size'' args)\<rparr>, rp))
     (parse_size w what args (sp, rp))"
  by (auto simp: parse_size_def option_defs split: list.split sum.splits)

lemma parse_max_udp_datagram_size_outcome:
  "outcome_of (option_ok (numeric w (2 ^ w)) (option_value ''-m'' ''--max-udp-datagram-size'' args))
     (if option_value ''-m'' ''--max-udp-datagram-size'' args = None then (sp, rp)
      else (sp\<lparr>s_max_udp_datagram_size :=
              as_int (number_of w 0 (option_value ''-m'' ''--max-udp-datagram-size'' args))\<rparr>, rp))
     (parse_max_udp_datagram_size w what args (sp, rp))"
  by (auto simp: parse_max_udp_datagram_size_def option_defs split: list.split sum.splits)

lemma parse_buffer_size_outcome:
  "outcome_of (option_ok (numeric w (2 ^ w)) (option_value ''--buffer-size'' ''-b'' args))
     (if option_value ''--buffer-size'' ''-b'' args = None then (sp, rp)
      else (sp\<lparr>s_buffer_size := as_int (number_of w 0 (option_value ''--buffer-size'' ''-b'' args))\<rparr>,
            rp\<lparr>r_buffer_size := as_int (number_of w 0 (option_value ''--buffer-size'' ''-b'' args))\<rparr>))
     (parse_buffer_size w what args (sp, rp))"
  by (auto simp: parse_buffer_size_def option_defs split: list.split sum.splits)

lemma and_then_outcome:
  "outcome_of ok p r \<Longrightarrow> outcome_of ok' p' (f p) \<Longrightarrow> outcome_of (ok \<and> ok') p' (and_then r f)"
  by (auto simp: and_then_def split: if_splits)

lemma outcome_of_eq: "outcome_of ok p r \<Longrightarrow> p = p' \<Longrightarrow> outcome_of ok p' r"
  by simp

lemma number_of_None [simp]: "number_of w d None = d"
  by (simp add: number_of_def)

lemma number_of_default:
  "option_ok (numeric w limit) ov \<Longrightarrow> ov \<noteq> None \<Longrightarrow> number_of w d ov = number_of w d' ov"
  by (auto simp: option_ok_def numeric_def number_of_def split: sum.splits)

lemma parse_address_outcome:
  fixes args :: "string list" and w :: nat
  defines "ip \<equiv> case option_value ''--ip'' ''-i'' args of Some (Some v) \<Rightarrow> v | _ \<Rightarrow> ''127.0.0.1''"
    and "port \<equiv> of_nat (number_of w 14000 (option_value ''--port'' ''-p'' args)) :: u16"
  assumes "option_ok (numeric w (2 ^ 16)) (option_value ''--port'' ''-p'' args)"
  shows "outcome_of (option_ok (\<lambda>_. True) (option_value ''--ip'' ''-i'' args) \<and>
          option_ok (numeric w (2 ^ 16)) (option_value ''--port'' ''-p'' args))
        (default_sender_parameters\<lparr>s_ip := ip, s_port := port\<rparr>,
         default_receiver_parameters\<lparr>r_ip := ip, r_port := port\<rparr>)
        (and_then (parse_ip args (default_sender_parameters, default_receiver_parameters)) (parse_port w what args))"
proof -
  have "outcome_of (option_ok (\<lambda>_. True) (option_value ''--ip'' ''-i'' args))
      (default_sender_parameters\<lparr>s_ip := ip\<rparr>, default_receiver_parameters\<lparr>r_ip := ip\<rparr>)
      (parse_ip args (default_sender_parameters, default_receiver_parameters))"
    by (rule outcome_of_eq [OF parse_ip_outcome])
      (auto simp: default_sender_parameters_def default_receiver_parameters_def ip_def split: option.split)
  note r = and_then_outcome [OF this, where f = "parse_port w what args", OF parse_port_outcome]
  show ?thesis
    using number_of_default [OF assms(3), of 0 14000]
    by (intro outcome_of_eq [OF r])
      (auto simp: default_sender_parameters_def default_receiver_parameters_def port_def)
qed

lemma parse_options_outcome:
  "outcome_of (options_ok w args) (given_parameters w args) (parse_options w what args)"
proof (cases "option_ok (numeric w (2 ^ 16)) (option_value ''--port'' ''-p'' args)")
  case True
  let ?ip = "case option_value ''--ip'' ''-i'' args of Some (Some v) \<Rightarrow> v | _ \<Rightarrow> ''127.0.0.1''"
  let ?port = "of_nat (number_of w 14000 (option_value ''--port'' ''-p'' args)) :: u16"
  let ?size = "number_of w 0 (option_value ''-s'' ''--size'' args)"
  define int_option where "int_option = (\<lambda>a b. if option_value a b args = None then - 1
    else as_int (number_of w 0 (option_value a b args)))"
  note r = and_then_outcome [OF parse_address_outcome [OF True],
      where f = "parse_size w what args", OF parse_size_outcome]
  note r = and_then_outcome [OF outcome_of_eq [OF r, of "(default_sender_parameters
        \<lparr>s_ip := ?ip, s_port := ?port, s_message_size := ?size\<rparr>,
      default_receiver_parameters\<lparr>r_ip := ?ip, r_port := ?port\<rparr>)"],
      where f = "parse_max_udp_datagram_size w what args", OF _ parse_max_udp_datagram_size_outcome]
  note r = and_then_outcome [OF outcome_of_eq [OF r, of "(default_sender_parameters
        \<lparr>s_ip := ?ip, s_port := ?port, s_message_size := ?size,
          s_max_udp_datagram_size := int_option ''-m'' ''--max-udp-datagram-size''\<rparr>,
      default_receiver_parameters\<lparr>r_ip := ?ip, r_port := ?port\<rparr>)"],
      where f = "parse_buffer_size w what args", OF _ _ parse_buffer_size_outcome]
  have "outcome_of ((((option_ok (\<lambda>_. True) (option_value ''--ip'' ''-i'' args) \<and>
        option_ok (numeric w (2 ^ 16)) (option_value ''--port'' ''-p'' args)) \<and>
        option_ok (numeric w (2 ^ w)) (option_value ''-s'' ''--size'' args)) \<and>
        option_ok (numeric w (2 ^ w)) (option_value ''-m'' ''--max-udp-datagram-size'' args)) \<and>
        option_ok (numeric w (2 ^ w)) (option_value ''--buffer-size'' ''-b'' args))
      (given_parameters w args) (parse_options w what args)"
    unfolding parse_options_def
    by (rule outcome_of_eq [OF r])
      (auto simp: default_sender_parameters_def default_receiver_parameters_def
        int_option_def given_parameters_def Let_def)
  then show ?thesis by (simp only: options_ok_def conj_assoc)
next
  case False
  have port: "\<exists>message. parse_port w what args p = Inl message" for p
    using False parse_port_outcome [where w = w and args = args and what = what and sp = "fst p" and rp = "snd p"]
    by simp
  show ?thesis
  proof (cases "parse_ip args (default_sender_parameters, default_receiver_parameters)")
    case (Inr p)
    with False port [of p] show ?thesis by (auto simp: options_ok_def parse_options_def and_then_def)
  qed (use False in \<open>simp add: options_ok_def parse_options_def and_then_def\<close>)
qed

definition started_for :: "string \<Rightarrow> parameters \<Rightarrow> started" where
  "started_for name p =
     (let (sp, rp) = p
      in if name = ''send'' then SenderSync sp
         else if name = ''sendasync'' then SenderAsync sp
         else if name = ''receive'' then ReceiverSync rp
         else if name = ''receiveasync'' then ReceiverAsync rp
         else if name = ''receivenpcap'' then ReceiverNpcapSync rp
         else ReceiverNpcapAsync rp)"

lemma run_implementation_eq:
  "parse_implementation name = Some impl \<Longrightarrow>
     run_implementation en impl p =
       (if \<not> en \<and> name \<in> {''receivenpcap'', ''receivenpcapasync''}
        then Exit 1 [] (''Error: Npcap-based receiver not enabled'' @ newline)
        else Start (started_for name p))"
  by (cases p) (auto simp: parse_implementation_def run_implementation_def started_for_def split: if_splits)

lemma perftool_main_cases:
  assumes "2 \<le> length args"
  shows "if ''-h'' \<in> set args \<or> ''--help'' \<in> set args
    then perftool_main w what en args = Exit 0 (printUsage (args ! 0)) []
    else if parse_implementation (args ! 1) = None \<or> \<not> options_ok w args \<or>
        \<not> en \<and> args ! 1 \<in> {''receivenpcap'', ''receivenpcapasync''}
    then \<exists>out err. perftool_main w what en args = Exit 1 out err
    else perftool_main w what en args = Start (started_for (args ! 1) (given_parameters w args))"
proof -
  obtain a0 as where args: "args = a0 # as" using assms by (cases args) auto
  show ?thesis
  proof (cases "''-h'' \<in> set args \<or> ''--help'' \<in> set args")
    case True
    with assms args show ?thesis by (auto simp: perftool_main_def find_arg_empty)
  next
    case False
    with assms have main: "perftool_main w what en args =
      (case parse_implementation (args ! 1) of
         None \<Rightarrow> Exit 1 (printUsage (args ! 0)) []
       | Some impl \<Rightarrow>
           (case parse_options w what args of
              Inl message \<Rightarrow> Exit 1 [] message
            | Inr p \<Rightarrow> run_implementation en impl p))"
      by (simp add: perftool_main_def find_arg_empty)
    show ?thesis
    proof (cases "parse_implementation (args ! 1)")
      case (Some impl)
      then show ?thesis
        using False parse_options_outcome [of w args what] run_implementation_eq [OF Some]
        unfolding main by (auto split: if_splits)
    qed (use False in \<open>simp add: main\<close>)
  qed
qed

text \<open>
  C34: the tool does what its command line says. With a program name and one more argument,
  \<^verbatim>\<open>main\<close> prints its usage and exits with 0 when help is asked for; exits with 1 when
  the implementation is unknown or not built in, or when an option lacks its value, a number is none
  or does not fit, or the port is above 65535; and otherwise starts that implementation with the
  given parameters, the defaults where an option is missing.
\<close>

theorem perftool_main_outcome:
  assumes "2 \<le> length args"
  shows "if ''-h'' \<in> set args \<or> ''--help'' \<in> set args
    then perftool_main w what en args = Exit 0 (printUsage (args ! 0)) []
    else if parse_implementation (args ! 1) = None \<or> \<not> options_ok w args \<or>
        \<not> en \<and> args ! 1 \<in> {''receivenpcap'', ''receivenpcapasync''}
    then \<exists>out err. perftool_main w what en args = Exit 1 out err
    else perftool_main w what en args = Start (started_for (args ! 1) (given_parameters w args))"
  using assms by (rule perftool_main_cases)

theorem perftool_main_outcome_witness:
  "\<exists>out err. perftool_main 64 (\<lambda>_. []) True [''perftool'', ''sending''] = Exit 1 out err"
  using perftool_main_outcome [of "[''perftool'', ''sending'']" 64 "\<lambda>_. []" True]
  by (auto simp: parse_implementation_def)

section \<open>Command lines made from parameters\<close>

definition no_option :: "string \<Rightarrow> bool" where
  "no_option v \<longleftrightarrow> v = [] \<or> hd v \<noteq> CHR ''-''"

lemma no_option_neq:
  assumes "no_option v"
  shows "v \<noteq> CHR ''-'' # s" and "CHR ''-'' # s \<noteq> v"
  using assms by (auto simp: no_option_def)

lemma no_option_to_string: "no_option (to_string n)"
  using digits_of_to_string [of n] by (cases "to_string n") (auto simp: no_option_def is_digit_def)

definition command_line ::
    "string \<Rightarrow> string \<Rightarrow> string \<Rightarrow> u16 \<Rightarrow> nat \<Rightarrow> nat \<Rightarrow> nat \<Rightarrow> string list" where
  "command_line arg0 name ip port sz max_size buffer_size =
     [arg0, name, ''--ip'', ip, ''--port'', to_string (unat port), ''--size'', to_string sz,
      ''--max-udp-datagram-size'', to_string max_size, ''--buffer-size'', to_string buffer_size]"

lemma command_line_options:
  assumes "no_option arg0" "no_option name" "no_option ip"
  shows "option_value ''--ip'' ''-i'' (command_line arg0 name ip port sz m b) = Some (Some ip)"
    and "option_value ''--port'' ''-p'' (command_line arg0 name ip port sz m b) =
           Some (Some (to_string (unat port)))"
    and "option_value ''-s'' ''--size'' (command_line arg0 name ip port sz m b) = Some (Some (to_string sz))"
    and "option_value ''-m'' ''--max-udp-datagram-size'' (command_line arg0 name ip port sz m b) =
           Some (Some (to_string m))"
    and "option_value ''--buffer-size'' ''-b'' (command_line arg0 name ip port sz m b) =
           Some (Some (to_string b))"
  using assms
  by (simp_all add: option_value_def find_option_def command_line_def no_option_neq no_option_to_string)

text \<open>
  C35: parameters go through the command line. The command line made from a name, a port, sizes
  and an implementation that is built in makes \<^verbatim>\<open>main\<close> start it with exactly these
  parameters, as long as the message size fits an \<^verbatim>\<open>unsigned long\<close> and the other two an
  \<^verbatim>\<open>int\<close>.
\<close>

theorem command_line_roundtrip:
  assumes "parse_implementation name \<noteq> None" and "en \<or> name \<notin> {''receivenpcap'', ''receivenpcapasync''}"
    and "no_option arg0" and "no_option ip"
    and "32 \<le> w" and "sz < 2 ^ w" and "m < 2 ^ 31" and "b < 2 ^ 31"
  shows "perftool_main w what en (command_line arg0 name ip port sz m b) =
    Start (started_for name
      (\<lparr>s_ip = ip, s_port = port, s_message_size = sz, s_max_udp_datagram_size = int m,
        s_buffer_size = int b\<rparr>,
       \<lparr>r_ip = ip, r_port = port, r_buffer_size = int b\<rparr>))"
proof -
  let ?args = "command_line arg0 name ip port sz m b"
  have name: "no_option name" using assms(1)
    by (auto simp: parse_implementation_def no_option_def split: if_splits)
  have w: "(2 :: nat) ^ 32 \<le> 2 ^ w" using assms(5) by (rule power_increasing) simp
  have port: "unat port < 2 ^ 16" using unsigned_less [of port] by simp
  have stoul: "stoul w (to_string (unat port)) = Inr (unat port)" "stoul w (to_string sz) = Inr sz"
    "stoul w (to_string m) = Inr m" "stoul w (to_string b) = Inr b"
    using assms(6-8) w port by (auto intro!: stoul_to_string)
  note opts = command_line_options [OF assms(3) name assms(4), of port sz m b]
  have "options_ok w ?args"
    using port stoul_bound [OF stoul(3)] stoul_bound [OF stoul(4)] assms(6)
    by (simp add: options_ok_def opts option_ok_def numeric_def stoul)
  moreover have "given_parameters w ?args =
      (\<lparr>s_ip = ip, s_port = port, s_message_size = sz, s_max_udp_datagram_size = int m, s_buffer_size = int b\<rparr>,
       \<lparr>r_ip = ip, r_port = port, r_buffer_size = int b\<rparr>)"
    using assms(7,8) by (simp add: given_parameters_def opts number_of_def stoul as_int_small)
  moreover have "''-h'' \<notin> set ?args" "''--help'' \<notin> set ?args"
    using assms(3,4) name
    by (simp_all add: command_line_def no_option_neq no_option_to_string)
  moreover have "2 \<le> length ?args" and "?args ! 1 = name" by (simp_all add: command_line_def)
  ultimately show ?thesis
    using perftool_main_cases [of ?args w what en] assms(1,2) by simp
qed

theorem command_line_roundtrip_witness:
  "perftool_main 64 (\<lambda>_. []) False (command_line ''p'' ''send'' ''10.0.0.1'' 14000 1000 1448 0) =
    Start (SenderSync \<lparr>s_ip = ''10.0.0.1'', s_port = 14000, s_message_size = 1000,
      s_max_udp_datagram_size = 1448, s_buffer_size = 0\<rparr>)"
  using command_line_roundtrip [of "''send''" False "''p''" "''10.0.0.1''" 64 1000 1448 0 "\<lambda>_. []" 14000]
  by (simp add: parse_implementation_def no_option_def started_for_def)

text \<open>
  C37: sizes of 2 GiB and more turn negative. A buffer size from 2^31 to 2^32 - 1 is
  accepted on the command line, but becomes a negative \<^verbatim>\<open>int\<close>, which is printed as, and
  later taken for, the default.
\<close>

theorem buffer_size_turns_negative:
  assumes "2 ^ 31 \<le> n" and "n < 2 ^ 32" and "32 \<le> w" and "no_option arg0"
  shows "\<exists>rp. perftool_main w what en [arg0, ''receive'', ''-b'', to_string n] = Start (ReceiverSync rp) \<and>
    r_buffer_size rp = int n - 2 ^ 32 \<and> r_buffer_size rp < 0 \<and> or_default (r_buffer_size rp) = ''default''"
proof -
  let ?args = "[arg0, ''receive'', ''-b'', to_string n]"
  have "n < 2 ^ w" using assms(2) power_increasing [OF assms(3), of "2 :: nat"] by simp
  then have stoul: "stoul w (to_string n) = Inr n" by (rule stoul_to_string)
  have b: "option_value ''--buffer-size'' ''-b'' ?args = Some (Some (to_string n))"
    using assms(4) by (simp add: option_value_def find_option_def no_option_neq no_option_to_string)
  have others: "option_value ''--ip'' ''-i'' ?args = None" "option_value ''--port'' ''-p'' ?args = None"
    "option_value ''-s'' ''--size'' ?args = None" "option_value ''-m'' ''--max-udp-datagram-size'' ?args = None"
    using assms(4) by (simp_all add: option_value_def find_option_def no_option_neq no_option_to_string)
  have "options_ok w ?args"
    using \<open>n < 2 ^ w\<close> by (simp add: options_ok_def b others option_ok_def numeric_def stoul)
  moreover have "''-h'' \<notin> set ?args" "''--help'' \<notin> set ?args"
    using assms(4) by (simp_all add: no_option_neq no_option_to_string)
  ultimately have "perftool_main w what en ?args = Start (ReceiverSync (snd (given_parameters w ?args)))"
    using perftool_main_cases [of ?args w what en]
    by (simp add: parse_implementation_def started_for_def split: prod.split)
  moreover have "r_buffer_size (snd (given_parameters w ?args)) = int n - 2 ^ 32"
    using assms(1,2) by (simp add: given_parameters_def Let_def b number_of_def stoul as_int_large)
  ultimately show ?thesis
    using assms(2) by (intro exI [of _ "snd (given_parameters w ?args)"]) (simp add: or_default_def)
qed

theorem buffer_size_turns_negative_witness:
  "\<exists>rp. perftool_main 64 (\<lambda>_. []) True [''p'', ''receive'', ''-b'', to_string 3000000000] = Start (ReceiverSync rp) \<and>
    r_buffer_size rp = - 1294967296"
  using buffer_size_turns_negative [of 3000000000 64 "''p''" "\<lambda>_. []" True]
  by (auto simp: no_option_def)

end
