(* ===== verification/Perftool_Sockets.thy ===== *)
theory Perftool_Sockets
  imports Perftool_Args Socket_Npcap
begin

text \<open>
  The sockets the performance tool creates (src/samples/ecaludp_perftool/src/socket_builder_asio.cpp
  and socket_builder_npcap.cpp). The network libraries are parameters: \<open>make_address\<close> parses an
  address, and \<open>perform\<close> answers a call on the socket, \<open>None\<close> for success and the message of
  the error code otherwise, in a state of the operating system that it may change. An exception is
  the text of the \<^verbatim>\<open>runtime_error\<close>.
\<close>

section \<open>The calls and the libraries\<close>

datatype protocol = V4 | V6

datatype 'addr socket_call =
    Open protocol
  | Set_Send_Buffer_Size int
  | Set_Receive_Buffer_Size int
  | Set_Reuse_Address bool
  | Set_Enable_Loopback bool
  | Join_Group 'addr
  | Bind 'addr u16

record ('addr, 'os) asio =
  make_address :: "string \<Rightarrow> 'addr option"
  is_v4 :: "'addr \<Rightarrow> bool"
  is_multicast :: "'addr \<Rightarrow> bool"
  any_v4 :: 'addr
  any_v6 :: 'addr
  perform :: "'addr socket_call \<Rightarrow> 'os \<Rightarrow> string option \<times> 'os"

definition endpoint_protocol :: "('addr, 'os) asio \<Rightarrow> 'addr \<Rightarrow> protocol" where
  "endpoint_protocol asio addr = (if is_v4 asio addr then V4 else V6)"

definition ecal_magic :: magic where
  "ecal_magic = (69, 67, 65, 76)"

section \<open>The asio sockets\<close>

definition CreateSendSocket ::
    "('addr, 'os) asio \<Rightarrow> SenderParameters \<Rightarrow> 'os \<Rightarrow> (string + 'ep Socket) \<times> 'os" where
  "CreateSendSocket asio p os =
     (let socket = new_socket ecal_magic
      in (case make_address asio (s_ip p) of
            None \<Rightarrow> (Inl (''Invalid IP address: '' @ s_ip p), os)
          | Some ip_address \<Rightarrow>
              (let socket =
                     (if s_max_udp_datagram_size p > 0
                      then set_max_udp_datagram_size (nat (s_max_udp_datagram_size p)) socket else socket)
               in (case perform asio (Open (endpoint_protocol asio ip_address)) os of
                     (Some ec, os) \<Rightarrow> (Inl (''Failed to open socket: '' @ ec), os)
                   | (None, os) \<Rightarrow>
                       if s_buffer_size p > 0
                       then (case perform asio (Set_Send_Buffer_Size (s_buffer_size p)) os of
                               (Some ec, os) \<Rightarrow> (Inl (''Failed to set send buffer size: '' @ ec), os)
                             | (None, os) \<Rightarrow> (Inr socket, os))
                       else (Inr socket, os)))))"

text \<open>The block for multicast addresses and the plain bind; the end of the function follows both.\<close>

definition bind_multicast ::
    "('addr, 'os) asio \<Rightarrow> 'addr \<Rightarrow> u16 \<Rightarrow> 'os \<Rightarrow> string option \<times> 'os" where
  "bind_multicast asio addr port os =
     (case perform asio (Set_Enable_Loopback True) os of
        (Some ec, os) \<Rightarrow> (Some (''Failed to set multicast loopback: '' @ ec), os)
      | (None, os) \<Rightarrow>
          (let bind_address = (if is_v4 asio addr then any_v4 asio else any_v6 asio)
           in (case perform asio (Bind bind_address port) os of
                 (Some ec, os) \<Rightarrow> (Some (''Failed to bind socket: '' @ ec), os)
               | (None, os) \<Rightarrow>
                   (case perform asio (Join_Group addr) os of
                      (Some ec, os) \<Rightarrow> (Some (''Failed to join multicast group: '' @ ec), os)
                    | (None, os) \<Rightarrow> (None, os)))))"

definition bind_unicast ::
    "('addr, 'os) asio \<Rightarrow> 'addr \<Rightarrow> u16 \<Rightarrow> 'os \<Rightarrow> string option \<times> 'os" where
  "bind_unicast asio addr port os =
     (case perform asio (Bind addr port) os of
        (Some ec, os) \<Rightarrow> (Some (''Failed to bind socket: '' @ ec), os)
      | (None, os) \<Rightarrow> (None, os))"

definition CreateReceiveSocket ::
    "('addr, 'os) asio \<Rightarrow> ReceiverParameters \<Rightarrow> 'os \<Rightarrow> (string + 'ep Socket) \<times> 'os" where
  "CreateReceiveSocket asio p os =
     (let socket = new_socket ecal_magic
      in (case make_address asio (r_ip p) of
            None \<Rightarrow> (Inl (''Invalid IP address: '' @ r_ip p), os)
          | Some ip_address \<Rightarrow>
              (case perform asio (Open (endpoint_protocol asio ip_address)) os of
                 (Some ec, os) \<Rightarrow> (Inl (''Failed to open socket: '' @ ec), os)
               | (None, os) \<Rightarrow>
                   (case perform asio (Set_Reuse_Address True) os of
                      (Some ec, os) \<Rightarrow> (Inl (''Failed to set reuse address: '' @ ec), os)
                    | (None, os) \<Rightarrow>
                        (case (if is_multicast asio ip_address then bind_multicast asio ip_address (r_port p) os
                               else bind_unicast asio ip_address (r_port p) os) of
                           (Some e, os) \<Rightarrow> (Inl e, os)
                         | (None, os) \<Rightarrow>
                             if r_buffer_size p > 0
                             then (case perform asio (Set_Receive_Buffer_Size (r_buffer_size p)) os of
                                     (Some ec, os) \<Rightarrow> (Inl (''Failed to set receive buffer size: '' @ ec), os)
                                   | (None, os) \<Rightarrow> (Inr socket, os))
                             else (Inr socket, os))))))"

section \<open>The npcap socket\<close>

text \<open>
  Its calls return whether they succeeded; the call that enables the loopback returns nothing. The
  address is still parsed by asio.
\<close>

datatype 'addr npcap_call =
    Npcap_Set_Receive_Buffer_Size int
  | Npcap_Set_Multicast_Loopback_Enabled bool
  | Npcap_Bind 'addr u16
  | Npcap_Join_Multicast_Group 'addr

definition NpcapCreateReceiveSocket ::
    "('addr, 'os) asio \<Rightarrow> ('addr npcap_call \<Rightarrow> 'os \<Rightarrow> bool \<times> 'os) \<Rightarrow> ReceiverParameters \<Rightarrow> 'os \<Rightarrow>
     (string + 'ep SocketNpcap) \<times> 'os" where
  "NpcapCreateReceiveSocket asio udpcap p os =
     (let socket = new_socket_npcap ecal_magic
      in (case make_address asio (r_ip p) of
            None \<Rightarrow> (Inl (''Invalid IP address: '' @ r_ip p), os)
          | Some ip_address \<Rightarrow>
              if \<not> is_v4 asio ip_address then (Inl ''Only IPv4 is supported'', os)
              else
                (let (success, os) =
                       (if r_buffer_size p > 0
                        then udpcap (Npcap_Set_Receive_Buffer_Size (r_buffer_size p)) os else (True, os))
                 in if \<not> success then (Inl ''Failed to set receive buffer size'', os)
                    else if is_multicast asio ip_address
                    then
                      (let (_, os) = udpcap (Npcap_Set_Multicast_Loopback_Enabled True) os;
                           (success, os) = udpcap (Npcap_Bind (any_v4 asio) (r_port p)) os
                       in if \<not> success then (Inl ''Failed to bind socket'', os)
                          else
                            (let (success, os) = udpcap (Npcap_Join_Multicast_Group ip_address) os
                             in if \<not> success then (Inl ''Failed to join multicast group'', os)
                                else (Inr socket, os)))
                    else
                      (let (success, os) = udpcap (Npcap_Bind ip_address (r_port p)) os
                       in if \<not> success then (Inl ''Failed to bind socket'', os)
                          else (Inr socket, os)))))"

section \<open>The calls as a plan\<close>

text \<open>
  A plan is the list of the calls with the text an exception starts with. It is performed up to the
  first call that fails.
\<close>

fun run_plan ::
    "('call \<Rightarrow> 'os \<Rightarrow> string option \<times> 'os) \<Rightarrow> ('call \<times> string) list \<Rightarrow> 'os \<Rightarrow> string option \<times> 'os" where
  "run_plan perf [] os = (None, os)"
| "run_plan perf ((c, failure) # plan) os =
     (case perf c os of
        (Some ec, os) \<Rightarrow> (Some (failure @ ec), os)
      | (None, os) \<Rightarrow> run_plan perf plan os)"

definition create ::
    "('call \<Rightarrow> 'os \<Rightarrow> string option \<times> 'os) \<Rightarrow> ('call \<times> string) list \<Rightarrow> 's \<Rightarrow> 'os \<Rightarrow> (string + 's) \<times> 'os" where
  "create perf plan s os =
     (case run_plan perf plan os of (Some e, os) \<Rightarrow> (Inl e, os) | (None, os) \<Rightarrow> (Inr s, os))"

definition send_plan :: "('addr, 'os) asio \<Rightarrow> SenderParameters \<Rightarrow> 'addr \<Rightarrow> ('addr socket_call \<times> string) list" where
  "send_plan asio p addr =
     [(Open (endpoint_protocol asio addr), ''Failed to open socket: '')] @
     (if s_buffer_size p > 0
      then [(Set_Send_Buffer_Size (s_buffer_size p), ''Failed to set send buffer size: '')] else [])"

definition receive_plan :: "('addr, 'os) asio \<Rightarrow> ReceiverParameters \<Rightarrow> 'addr \<Rightarrow> ('addr socket_call \<times> string) list" where
  "receive_plan asio p addr =
     [(Open (endpoint_protocol asio addr), ''Failed to open socket: ''),
      (Set_Reuse_Address True, ''Failed to set reuse address: '')] @
     (if is_multicast asio addr
      then [(Set_Enable_Loopback True, ''Failed to set multicast loopback: ''),
            (Bind (if is_v4 asio addr then any_v4 asio else any_v6 asio) (r_port p), ''Failed to bind socket: ''),
            (Join_Group addr, ''Failed to join multicast group: '')]
      else [(Bind addr (r_port p), ''Failed to bind socket: '')]) @
     (if r_buffer_size p > 0
      then [(Set_Receive_Buffer_Size (r_buffer_size p), ''Failed to set receive buffer size: '')] else [])"

lemma run_plan_append:
  "run_plan perf (xs @ ys) os =
     (case run_plan perf xs os of (Some e, os) \<Rightarrow> (Some e, os) | (None, os) \<Rightarrow> run_plan perf ys os)"
  by (induction perf xs os rule: run_plan.induct) (auto split: option.split prod.split)

definition bind_plan :: "('addr, 'os) asio \<Rightarrow> 'addr \<Rightarrow> u16 \<Rightarrow> ('addr socket_call \<times> string) list" where
  "bind_plan asio addr port =
     (if is_multicast asio addr
      then [(Set_Enable_Loopback True, ''Failed to set multicast loopback: ''),
            (Bind (if is_v4 asio addr then any_v4 asio else any_v6 asio) port, ''Failed to bind socket: ''),
            (Join_Group addr, ''Failed to join multicast group: '')]
      else [(Bind addr port, ''Failed to bind socket: '')])"

lemma bind_plan:
  "(if is_multicast asio addr then bind_multicast asio addr port os else bind_unicast asio addr port os) =
     run_plan (perform asio) (bind_plan asio addr port) os"
  by (simp add: bind_multicast_def bind_unicast_def bind_plan_def Let_def split: option.split prod.split)

lemma receive_plan_bind:
  "receive_plan asio p addr =
     [(Open (endpoint_protocol asio addr), ''Failed to open socket: ''),
      (Set_Reuse_Address True, ''Failed to set reuse address: '')] @ bind_plan asio addr (r_port p) @
     (if r_buffer_size p > 0
      then [(Set_Receive_Buffer_Size (r_buffer_size p), ''Failed to set receive buffer size: '')] else [])"
  by (simp add: receive_plan_def bind_plan_def)

text \<open>
  Creating sockets is performing a plan. After the address has been parsed, both functions
  perform a fixed sequence of calls: the socket is opened before any option is set, the address made
  reusable before it is bound, a multicast group joined only once the socket is bound to the
  unspecified address of the same family, and the buffer size set last. The first failing call ends it
  with the exception for this call and its error; a socket is returned exactly when no call fails.
\<close>

lemma create_sockets_plan:
  "CreateSendSocket asio sp os =
     (case make_address asio (s_ip sp) of
        None \<Rightarrow> (Inl (''Invalid IP address: '' @ s_ip sp), os)
      | Some addr \<Rightarrow>
          create (perform asio) (send_plan asio sp addr)
            ((new_socket ecal_magic)\<lparr>max_udp_datagram_size :=
               (if s_max_udp_datagram_size sp > 0 then nat (s_max_udp_datagram_size sp) else 1448)\<rparr>) os) \<and>
   CreateReceiveSocket asio rp os =
     (case make_address asio (r_ip rp) of
        None \<Rightarrow> (Inl (''Invalid IP address: '' @ r_ip rp), os)
      | Some addr \<Rightarrow> create (perform asio) (receive_plan asio rp addr) (new_socket ecal_magic) os)"
proof
  show "CreateSendSocket asio sp os =
     (case make_address asio (s_ip sp) of
        None \<Rightarrow> (Inl (''Invalid IP address: '' @ s_ip sp), os)
      | Some addr \<Rightarrow>
          create (perform asio) (send_plan asio sp addr)
            ((new_socket ecal_magic)\<lparr>max_udp_datagram_size :=
               (if s_max_udp_datagram_size sp > 0 then nat (s_max_udp_datagram_size sp) else 1448)\<rparr>) os)"
    by (auto simp: CreateSendSocket_def create_def send_plan_def new_socket_def set_max_udp_datagram_size_def
        split: option.split prod.split)
  show "CreateReceiveSocket asio rp os =
     (case make_address asio (r_ip rp) of
        None \<Rightarrow> (Inl (''Invalid IP address: '' @ r_ip rp), os)
      | Some addr \<Rightarrow> create (perform asio) (receive_plan asio rp addr) (new_socket ecal_magic) os)"
  proof (cases "make_address asio (r_ip rp)")
    case (Some addr)
    then show ?thesis
      unfolding CreateReceiveSocket_def Let_def create_def receive_plan_bind bind_plan run_plan_append
      by (auto split: option.split prod.split)
  qed (simp add: CreateReceiveSocket_def)
qed

definition npcap_perform ::
    "('addr npcap_call \<Rightarrow> 'os \<Rightarrow> bool \<times> 'os) \<Rightarrow> 'addr npcap_call \<Rightarrow> 'os \<Rightarrow> string option \<times> 'os" where
  "npcap_perform udpcap c os =
     (let (success, os) = udpcap c os
      in (if success \<or> c = Npcap_Set_Multicast_Loopback_Enabled True then None else Some [], os))"

definition npcap_plan :: "('addr, 'os) asio \<Rightarrow> ReceiverParameters \<Rightarrow> 'addr \<Rightarrow> ('addr npcap_call \<times> string) list" where
  "npcap_plan asio p addr =
     (if r_buffer_size p > 0
      then [(Npcap_Set_Receive_Buffer_Size (r_buffer_size p), ''Failed to set receive buffer size'')] else []) @
     (if is_multicast asio addr
      then [(Npcap_Set_Multicast_Loopback_Enabled True, []),
            (Npcap_Bind (any_v4 asio) (r_port p), ''Failed to bind socket''),
            (Npcap_Join_Multicast_Group addr, ''Failed to join multicast group'')]
      else [(Npcap_Bind addr (r_port p), ''Failed to bind socket'')])"

text \<open>
  Creating an npcap socket is performing a plan. For an IPv4 address the buffer size is set
  first, then the socket is bound, to the unspecified address for a multicast group, which is joined
  afterwards; a failure to enable the loopback is ignored, any other ends the function with
  its exception. IPv6 addresses are refused before the socket is touched.
\<close>

lemma npcap_create_plan:
  "NpcapCreateReceiveSocket asio udpcap p os =
     (case make_address asio (r_ip p) of
        None \<Rightarrow> (Inl (''Invalid IP address: '' @ r_ip p), os)
      | Some addr \<Rightarrow>
          if is_v4 asio addr
          then create (npcap_perform udpcap) (npcap_plan asio p addr) (new_socket_npcap ecal_magic) os
          else (Inl ''Only IPv4 is supported'', os))"
  by (auto simp: NpcapCreateReceiveSocket_def create_def npcap_plan_def npcap_perform_def Let_def
      split: option.split prod.split)

end
