(* ===== verification/Npcap_Api.thy ===== *)
theory Npcap_Api
  imports Socket_Npcap Perftool_Sockets
begin

text \<open>
  The members of \<^verbatim>\<open>SocketNpcap\<close> and \<^verbatim>\<open>AsyncUdpcapSocket\<close> that pass calls on to udpcap
  (src/ecaludp/src/socket_npcap.cpp, src/ecaludp/src/async_udpcap_socket.h and .cpp), the functions of
  src/ecaludp/src/npcap_helpers.cpp, and the test program
  src/samples/integration_test_npcap/src/main.cpp. The udpcap library is a parameter: its socket has a
  state of its own, and what it documents is the predicate \<open>udpcap_documented\<close>. Addresses go
  from asio to udpcap and back as text.
\<close>

section \<open>The udpcap library\<close>

record ('haddr, 'us) udpcap_library =
  Initialize :: "'us \<Rightarrow> bool \<times> 'us"
  IsInitialized :: "'us \<Rightarrow> bool"
  GetHumanReadibleErrorText :: "'us \<Rightarrow> string"
  HostAddress :: "string \<Rightarrow> 'haddr"
  host_toString :: "'haddr \<Rightarrow> string"
  udp_isValid :: "'us \<Rightarrow> bool"
  udp_bind :: "'haddr \<Rightarrow> u16 \<Rightarrow> 'us \<Rightarrow> bool \<times> 'us"
  udp_isBound :: "'us \<Rightarrow> bool"
  udp_isClosed :: "'us \<Rightarrow> bool"
  udp_localAddress :: "'us \<Rightarrow> 'haddr"
  udp_localPort :: "'us \<Rightarrow> u16"
  udp_setReceiveBufferSize :: "int \<Rightarrow> 'us \<Rightarrow> bool \<times> 'us"
  udp_joinMulticastGroup :: "'haddr \<Rightarrow> 'us \<Rightarrow> bool \<times> 'us"
  udp_leaveMulticastGroup :: "'haddr \<Rightarrow> 'us \<Rightarrow> bool \<times> 'us"
  udp_setMulticastLoopbackEnabled :: "bool \<Rightarrow> 'us \<Rightarrow> 'us"
  udp_isMulticastLoopbackEnabled :: "'us \<Rightarrow> bool"
  udp_close :: "'us \<Rightarrow> 'us"

section \<open>The helpers\<close>

definition npcap_initialize :: "('haddr, 'us) udpcap_library \<Rightarrow> 'us \<Rightarrow> bool \<times> 'us" where
  "npcap_initialize lib us = Initialize lib us"

definition npcap_is_initialized :: "('haddr, 'us) udpcap_library \<Rightarrow> 'us \<Rightarrow> bool" where
  "npcap_is_initialized lib us = IsInitialized lib us"

definition get_human_readable_error_text :: "('haddr, 'us) udpcap_library \<Rightarrow> 'us \<Rightarrow> string" where
  "get_human_readable_error_text lib us = GetHumanReadibleErrorText lib us"

section \<open>AsyncUdpcapSocket\<close>

text \<open>The udpcap socket, and the queue with its thread of \<open>Async_Udpcap\<close>.\<close>

record ('us, 'r) AsyncUdpcapSocket =
  udpcap_socket :: 'us
  receiver_thread :: "'r async_socket"

definition new_AsyncUdpcapSocket :: "'us \<Rightarrow> ('us, 'r) AsyncUdpcapSocket" where
  "new_AsyncUdpcapSocket us = \<lparr>udpcap_socket = us, receiver_thread = async_init\<rparr>"

definition isValid :: "('haddr, 'us) udpcap_library \<Rightarrow> ('us, 'r) AsyncUdpcapSocket \<Rightarrow> bool" where
  "isValid lib s = udp_isValid lib (udpcap_socket s)"

definition isBound :: "('haddr, 'us) udpcap_library \<Rightarrow> ('us, 'r) AsyncUdpcapSocket \<Rightarrow> bool" where
  "isBound lib s = udp_isBound lib (udpcap_socket s)"

definition localAddress :: "('haddr, 'us) udpcap_library \<Rightarrow> ('us, 'r) AsyncUdpcapSocket \<Rightarrow> 'haddr" where
  "localAddress lib s = udp_localAddress lib (udpcap_socket s)"

definition localPort :: "('haddr, 'us) udpcap_library \<Rightarrow> ('us, 'r) AsyncUdpcapSocket \<Rightarrow> u16" where
  "localPort lib s = udp_localPort lib (udpcap_socket s)"

definition setReceiveBufferSize ::
    "('haddr, 'us) udpcap_library \<Rightarrow> int \<Rightarrow> ('us, 'r) AsyncUdpcapSocket \<Rightarrow> bool \<times> ('us, 'r) AsyncUdpcapSocket" where
  "setReceiveBufferSize lib n s =
     (let (success, us) = udp_setReceiveBufferSize lib n (udpcap_socket s) in (success, s\<lparr>udpcap_socket := us\<rparr>))"

definition joinMulticastGroup ::
    "('haddr, 'us) udpcap_library \<Rightarrow> 'haddr \<Rightarrow> ('us, 'r) AsyncUdpcapSocket \<Rightarrow> bool \<times> ('us, 'r) AsyncUdpcapSocket" where
  "joinMulticastGroup lib group_address s =
     (let (success, us) = udp_joinMulticastGroup lib group_address (udpcap_socket s) in (success, s\<lparr>udpcap_socket := us\<rparr>))"

definition leaveMulticastGroup ::
    "('haddr, 'us) udpcap_library \<Rightarrow> 'haddr \<Rightarrow> ('us, 'r) AsyncUdpcapSocket \<Rightarrow> bool \<times> ('us, 'r) AsyncUdpcapSocket" where
  "leaveMulticastGroup lib group_address s =
     (let (success, us) = udp_leaveMulticastGroup lib group_address (udpcap_socket s) in (success, s\<lparr>udpcap_socket := us\<rparr>))"

definition setMulticastLoopbackEnabled ::
    "('haddr, 'us) udpcap_library \<Rightarrow> bool \<Rightarrow> ('us, 'r) AsyncUdpcapSocket \<Rightarrow> ('us, 'r) AsyncUdpcapSocket" where
  "setMulticastLoopbackEnabled lib on s =
     s\<lparr>udpcap_socket := udp_setMulticastLoopbackEnabled lib on (udpcap_socket s)\<rparr>"

definition isMulticastLoopbackEnabled :: "('haddr, 'us) udpcap_library \<Rightarrow> ('us, 'r) AsyncUdpcapSocket \<Rightarrow> bool" where
  "isMulticastLoopbackEnabled lib s = udp_isMulticastLoopbackEnabled lib (udpcap_socket s)"

text \<open>\<open>None\<close>: the call waits for the old thread to end.\<close>

definition bind_udpcap ::
    "('haddr, 'us) udpcap_library \<Rightarrow> 'haddr \<Rightarrow> u16 \<Rightarrow> ('us, 'r) AsyncUdpcapSocket \<Rightarrow>
     (bool \<times> ('us, 'r) AsyncUdpcapSocket) option" where
  "bind_udpcap lib local_address local_port s =
     (let (success, us) = udp_bind lib local_address local_port (udpcap_socket s)
      in case async_bind success (receiver_thread s) of
           None \<Rightarrow> None
         | Some thread \<Rightarrow> Some (success, s\<lparr>udpcap_socket := us, receiver_thread := thread\<rparr>))"

definition close_udpcap ::
    "('haddr, 'us) udpcap_library \<Rightarrow> ('us, 'r) AsyncUdpcapSocket \<Rightarrow> ('us, 'r) AsyncUdpcapSocket" where
  "close_udpcap lib s =
     s\<lparr>udpcap_socket := udp_close lib (udpcap_socket s), receiver_thread := async_close (receiver_thread s)\<rparr>"

text \<open>The destructor: \<open>us\<close> are the results of the receive calls until the thread ends.\<close>

definition destroy_udpcap ::
    "('haddr, 'us) udpcap_library \<Rightarrow> (udpcap_error \<times> nat) list \<Rightarrow> ('us, 'r) AsyncUdpcapSocket \<Rightarrow>
     ('us, 'r) AsyncUdpcapSocket option" where
  "destroy_udpcap lib results s =
     (case async_destroy results (receiver_thread s) of
        None \<Rightarrow> None
      | Some thread \<Rightarrow> Some (s\<lparr>udpcap_socket := udp_close lib (udpcap_socket s), receiver_thread := thread\<rparr>))"

section \<open>SocketNpcap\<close>

text \<open>
  \<open>text_of\<close> is the \<^verbatim>\<open>to_string\<close> of an asio address, \<open>parse_address\<close> the
  \<^verbatim>\<open>make_address\<close> of asio, which throws where it yields \<open>None\<close>. An endpoint is an address and a port.
\<close>

record ('ep, 'us, 'r) Npcap_Object =
  npcap_state :: "'ep SocketNpcap"
  npcap_udpcap :: "('us, 'r) AsyncUdpcapSocket"

definition new_npcap_object :: "magic \<Rightarrow> 'us \<Rightarrow> ('ep, 'us, 'r) Npcap_Object" where
  "new_npcap_object m us = \<lparr>npcap_state = new_socket_npcap m, npcap_udpcap = new_AsyncUdpcapSocket us\<rparr>"

definition np_is_valid :: "('haddr, 'us) udpcap_library \<Rightarrow> ('ep, 'us, 'r) Npcap_Object \<Rightarrow> bool" where
  "np_is_valid lib s = isValid lib (npcap_udpcap s)"

definition np_bind ::
    "('addr \<Rightarrow> string) \<Rightarrow> ('haddr, 'us) udpcap_library \<Rightarrow> 'addr \<times> u16 \<Rightarrow> ('ep, 'us, 'r) Npcap_Object \<Rightarrow>
     (bool \<times> ('ep, 'us, 'r) Npcap_Object) option" where
  "np_bind text_of lib ep s =
     (case bind_udpcap lib (HostAddress lib (text_of (fst ep))) (snd ep) (npcap_udpcap s) of
        None \<Rightarrow> None
      | Some (success, u) \<Rightarrow> Some (success, s\<lparr>npcap_udpcap := u\<rparr>))"

definition np_is_bound :: "('haddr, 'us) udpcap_library \<Rightarrow> ('ep, 'us, 'r) Npcap_Object \<Rightarrow> bool" where
  "np_is_bound lib s = isBound lib (npcap_udpcap s)"

definition np_local_endpoint ::
    "(string \<Rightarrow> 'addr option) \<Rightarrow> ('haddr, 'us) udpcap_library \<Rightarrow> ('ep, 'us, 'r) Npcap_Object \<Rightarrow> fault + 'addr \<times> u16" where
  "np_local_endpoint parse_address lib s =
     (case parse_address (host_toString lib (localAddress lib (npcap_udpcap s))) of
        None \<Rightarrow> Inl (Invalid_Argument ''make_address'')
      | Some addr \<Rightarrow> Inr (addr, localPort lib (npcap_udpcap s)))"

definition np_set_receive_buffer_size ::
    "('haddr, 'us) udpcap_library \<Rightarrow> int \<Rightarrow> ('ep, 'us, 'r) Npcap_Object \<Rightarrow> bool \<times> ('ep, 'us, 'r) Npcap_Object" where
  "np_set_receive_buffer_size lib n s =
     (let (success, u) = setReceiveBufferSize lib n (npcap_udpcap s) in (success, s\<lparr>npcap_udpcap := u\<rparr>))"

definition np_join_multicast_group ::
    "('addr \<Rightarrow> string) \<Rightarrow> ('haddr, 'us) udpcap_library \<Rightarrow> 'addr \<Rightarrow> ('ep, 'us, 'r) Npcap_Object \<Rightarrow>
     bool \<times> ('ep, 'us, 'r) Npcap_Object" where
  "np_join_multicast_group text_of lib group_address s =
     (let (success, u) = joinMulticastGroup lib (HostAddress lib (text_of group_address)) (npcap_udpcap s)
      in (success, s\<lparr>npcap_udpcap := u\<rparr>))"

definition np_leave_multicast_group ::
    "('addr \<Rightarrow> string) \<Rightarrow> ('haddr, 'us) udpcap_library \<Rightarrow> 'addr \<Rightarrow> ('ep, 'us, 'r) Npcap_Object \<Rightarrow>
     bool \<times> ('ep, 'us, 'r) Npcap_Object" where
  "np_leave_multicast_group text_of lib group_address s =
     (let (success, u) = leaveMulticastGroup lib (HostAddress lib (text_of group_address)) (npcap_udpcap s)
      in (success, s\<lparr>npcap_udpcap := u\<rparr>))"

definition np_set_multicast_loopback_enabled ::
    "('haddr, 'us) udpcap_library \<Rightarrow> bool \<Rightarrow> ('ep, 'us, 'r) Npcap_Object \<Rightarrow> ('ep, 'us, 'r) Npcap_Object" where
  "np_set_multicast_loopback_enabled lib on s =
     s\<lparr>npcap_udpcap := setMulticastLoopbackEnabled lib on (npcap_udpcap s)\<rparr>"

definition np_is_multicast_loopback_enabled :: "('haddr, 'us) udpcap_library \<Rightarrow> ('ep, 'us, 'r) Npcap_Object \<Rightarrow> bool" where
  "np_is_multicast_loopback_enabled lib s = isMulticastLoopbackEnabled lib (npcap_udpcap s)"

definition np_close :: "('haddr, 'us) udpcap_library \<Rightarrow> ('ep, 'us, 'r) Npcap_Object \<Rightarrow> ('ep, 'us, 'r) Npcap_Object" where
  "np_close lib s = s\<lparr>npcap_udpcap := close_udpcap lib (npcap_udpcap s)\<rparr>"

section \<open>The integration test\<close>

text \<open>
  \<^verbatim>\<open>main\<close>: the text printed, the value returned, and the library's state after the destructor of
  the socket; \<open>None\<close> if a call waits for ever. Nobody asks for a datagram.
\<close>

definition integration_npcap_main ::
    "('addr \<Rightarrow> string) \<Rightarrow> 'addr \<Rightarrow> ('haddr, 'us) udpcap_library \<Rightarrow> 'us \<Rightarrow> (string \<times> int \<times> 'us) option" where
  "integration_npcap_main text_of loopback lib us =
     (let (_, us) = npcap_initialize lib us;
          socket = new_npcap_object ecal_magic us :: ('addr \<times> u16, 'us, nat) Npcap_Object
      in case np_bind text_of lib (loopback, 14000) socket of
           None \<Rightarrow> None
         | Some (success, socket) \<Rightarrow>
             (let out = ''Bind success: '' @ (if success then ''true'' else ''false'') @ newline
              in case destroy_udpcap lib [] (npcap_udpcap socket) of
                   None \<Rightarrow> None
                 | Some u \<Rightarrow> Some (out, 0, udpcap_socket u)))"

section \<open>What the library documents\<close>

text \<open>
  A successful bind makes the socket bound to the address and port it was given, and the other calls do
  not touch that. The text of an IPv4 address survives udpcap.
\<close>

definition same_binding :: "('haddr, 'us) udpcap_library \<Rightarrow> 'us \<Rightarrow> 'us \<Rightarrow> bool" where
  "same_binding lib us us' \<longleftrightarrow>
     udp_isBound lib us' = udp_isBound lib us \<and> udp_localAddress lib us' = udp_localAddress lib us \<and>
     udp_localPort lib us' = udp_localPort lib us"

definition udpcap_documented ::
    "('addr \<Rightarrow> bool) \<Rightarrow> ('addr \<Rightarrow> string) \<Rightarrow> (string \<Rightarrow> 'addr option) \<Rightarrow> ('haddr, 'us) udpcap_library \<Rightarrow> bool" where
  "udpcap_documented v4 text_of parse_address lib \<longleftrightarrow>
     (\<forall>a p us us'. udp_bind lib a p us = (True, us') \<longrightarrow>
        udp_isBound lib us' \<and> udp_localAddress lib us' = a \<and> (p \<noteq> 0 \<longrightarrow> udp_localPort lib us' = p)) \<and>
     (\<forall>n us. same_binding lib us (snd (udp_setReceiveBufferSize lib n us))) \<and>
     (\<forall>g us. same_binding lib us (snd (udp_joinMulticastGroup lib g us))) \<and>
     (\<forall>b us. same_binding lib us (udp_setMulticastLoopbackEnabled lib b us)) \<and>
     (\<forall>a. v4 a \<longrightarrow> parse_address (host_toString lib (HostAddress lib (text_of a))) = Some a)"

text \<open>
  The calls that \<open>NpcapCreateReceiveSocket\<close> makes on its socket. \<open>None\<close> as the object stands for a
  call that waits for ever, after which nothing more happens.
\<close>

fun npcap_answer ::
    "('addr \<Rightarrow> string) \<Rightarrow> ('haddr, 'us) udpcap_library \<Rightarrow> 'addr npcap_call \<Rightarrow> ('ep, 'us, 'r) Npcap_Object option \<Rightarrow>
     bool \<times> ('ep, 'us, 'r) Npcap_Object option" where
  "npcap_answer text_of lib c None = (False, None)"
| "npcap_answer text_of lib (Npcap_Set_Receive_Buffer_Size n) (Some s) =
     map_prod id Some (np_set_receive_buffer_size lib n s)"
| "npcap_answer text_of lib (Npcap_Set_Multicast_Loopback_Enabled b) (Some s) =
     (True, Some (np_set_multicast_loopback_enabled lib b s))"
| "npcap_answer text_of lib (Npcap_Bind addr port) (Some s) =
     (case np_bind text_of lib (addr, port) s of None \<Rightarrow> (False, None) | Some (success, s) \<Rightarrow> (success, Some s))"
| "npcap_answer text_of lib (Npcap_Join_Multicast_Group addr) (Some s) =
     map_prod id Some (np_join_multicast_group text_of lib addr s)"

text \<open>The object listens: bound to an endpoint, with a thread that waits for requests.\<close>

definition listens ::
    "(string \<Rightarrow> 'addr option) \<Rightarrow> ('haddr, 'us) udpcap_library \<Rightarrow> 'addr \<times> u16 \<Rightarrow> ('ep, 'us, 'r) Npcap_Object \<Rightarrow> bool" where
  "listens parse_address lib ep s \<longleftrightarrow>
     np_is_bound lib s \<and> np_local_endpoint parse_address lib s = Inr ep \<and>
     wait_thread (receiver_thread (npcap_udpcap s)) = Waiting_For_Request \<and>
     \<not> is_closed (receiver_thread (npcap_udpcap s))"

lemmas np_members =
  np_bind_def bind_udpcap_def np_set_receive_buffer_size_def setReceiveBufferSize_def
  np_join_multicast_group_def joinMulticastGroup_def np_set_multicast_loopback_enabled_def
  setMulticastLoopbackEnabled_def np_is_bound_def isBound_def np_local_endpoint_def localAddress_def localPort_def

lemma bind_listens:
  assumes d: "udpcap_documented v4 text_of parse_address lib" and "v4 addr" "port \<noteq> 0"
    and b: "np_bind text_of lib (addr, port) s = Some (True, s')"
  shows "listens parse_address lib (addr, port) s'"
proof -
  obtain us thread where u: "udp_bind lib (HostAddress lib (text_of addr)) port (udpcap_socket (npcap_udpcap s)) = (True, us)"
    and t: "async_bind True (receiver_thread (npcap_udpcap s)) = Some thread"
    and s': "s' = s\<lparr>npcap_udpcap := (npcap_udpcap s)\<lparr>udpcap_socket := us, receiver_thread := thread\<rparr>\<rparr>"
    using b by (auto simp: np_members Let_def split: option.splits prod.splits)
  from d u \<open>port \<noteq> 0\<close> have "udp_isBound lib us" "udp_localAddress lib us = HostAddress lib (text_of addr)"
    "udp_localPort lib us = port" unfolding udpcap_documented_def by blast+
  moreover from d \<open>v4 addr\<close> have "parse_address (host_toString lib (HostAddress lib (text_of addr))) = Some addr"
    unfolding udpcap_documented_def by blast
  moreover from t have "wait_thread thread = Waiting_For_Request \<and> \<not> is_closed thread"
    by (auto simp: async_bind_def split: if_splits)
  ultimately show ?thesis by (simp add: listens_def np_members s')
qed

lemma join_listens:
  assumes "udpcap_documented v4 text_of parse_address lib" and "listens parse_address lib ep s"
  shows "listens parse_address lib ep (snd (np_join_multicast_group text_of lib g s))"
proof -
  let ?us = "udpcap_socket (npcap_udpcap s)"
  let ?us' = "snd (udp_joinMulticastGroup lib (HostAddress lib (text_of g)) ?us)"
  from assms(1) have "same_binding lib ?us ?us'" unfolding udpcap_documented_def by blast
  moreover have "snd (np_join_multicast_group text_of lib g s) =
      s\<lparr>npcap_udpcap := (npcap_udpcap s)\<lparr>udpcap_socket := ?us'\<rparr>\<rparr>"
    by (simp add: np_members Let_def case_prod_unfold)
  ultimately show ?thesis
    using assms(2) by (auto simp: listens_def np_members same_binding_def split: option.splits)
qed

lemma fresh_settings:
  "wait_thread (receiver_thread (npcap_udpcap (snd (np_set_receive_buffer_size lib n s)))) =
     wait_thread (receiver_thread (npcap_udpcap s))"
  "wait_thread (receiver_thread (npcap_udpcap (np_set_multicast_loopback_enabled lib b s))) =
     wait_thread (receiver_thread (npcap_udpcap s))"
  "wait_thread (receiver_thread (npcap_udpcap (new_npcap_object m us))) = No_Thread"
  by (simp_all add: np_members new_npcap_object_def new_AsyncUdpcapSocket_def async_init_def case_prod_unfold Let_def)

lemma bind_fresh:
  "wait_thread (receiver_thread (npcap_udpcap s)) = No_Thread \<Longrightarrow> np_bind text_of lib ep s \<noteq> None"
  by (auto simp: np_members async_bind_def Let_def split: prod.split)

section \<open>Properties\<close>


text \<open>
  The integration test ends. Whatever the npcap driver answers, \<^verbatim>\<open>main\<close> prints whether the
  socket could be bound and returns 0, and the destructor of the socket does not wait for its thread for
  ever; the library's socket has been closed.
\<close>

lemma integration_npcap_main_ends:
  "integration_npcap_main text_of loopback lib us =
     (let (success, us) = udp_bind lib (HostAddress lib (text_of loopback)) 14000 (snd (Initialize lib us))
      in Some (''Bind success: '' @ (if success then ''true'' else ''false'') @ newline, 0, udp_close lib us))"
proof -
  obtain ok us1 where i: "Initialize lib us = (ok, us1)" by (cases "Initialize lib us")
  obtain success us2 where b: "udp_bind lib (HostAddress lib (text_of loopback)) 14000 us1 = (success, us2)"
    by (cases "udp_bind lib (HostAddress lib (text_of loopback)) 14000 us1")
  let ?thread = "(async_init :: nat async_socket)\<lparr>is_closed := False, wait_thread := if success then Waiting_For_Request else No_Thread\<rparr>"
  have "async_bind success (async_init :: nat async_socket) = Some ?thread"
    by (simp add: async_bind_def async_init_def)
  moreover have "async_destroy [] ?thread \<noteq> None"
    by (simp add: async_destroy_def async_close_def async_init_def waitForData.simps take_request_def Let_def)
  ultimately show ?thesis using i b
    by (auto simp: integration_npcap_main_def npcap_initialize_def np_bind_def bind_udpcap_def new_npcap_object_def
        new_AsyncUdpcapSocket_def destroy_udpcap_def)
qed

section \<open>Witness\<close>

text \<open>A library whose socket knows only where it is bound to, with addresses that are their texts.\<close>

definition demo_udpcap :: "(string, (string \<times> u16) option) udpcap_library" where
  "demo_udpcap =
     \<lparr>Initialize = Pair True, IsInitialized = (\<lambda>us. True), GetHumanReadibleErrorText = (\<lambda>us. []),
      HostAddress = (\<lambda>x. x), host_toString = (\<lambda>x. x), udp_isValid = (\<lambda>us. True),
      udp_bind = (\<lambda>a p us. (True, Some (a, p))), udp_isBound = (\<lambda>us. us \<noteq> None), udp_isClosed = (\<lambda>us. False),
      udp_localAddress = (\<lambda>us. case us of None \<Rightarrow> [] | Some (a, p) \<Rightarrow> a),
      udp_localPort = (\<lambda>us. case us of None \<Rightarrow> 0 | Some (a, p) \<Rightarrow> p),
      udp_setReceiveBufferSize = (\<lambda>n us. (n < 1000000, us)), udp_joinMulticastGroup = (\<lambda>g us. (us \<noteq> None, us)),
      udp_leaveMulticastGroup = (\<lambda>g us. (us \<noteq> None, us)), udp_setMulticastLoopbackEnabled = (\<lambda>b us. us),
      udp_isMulticastLoopbackEnabled = (\<lambda>us. True), udp_close = (\<lambda>us. None)\<rparr>"

definition demo_names :: "(string, 'os) asio" where
  "demo_names =
     \<lparr>make_address = (\<lambda>x. if x = [] then None else Some x), is_v4 = (\<lambda>a. a \<noteq> []),
      is_multicast = (\<lambda>a. a = ''239.0.0.1''), any_v4 = ''0.0.0.0'', any_v6 = ''::'', perform = (\<lambda>c os. (None, os))\<rparr>"


end
