(* ===== verification/Lossy_Network.thy ===== *)
theory Lossy_Network
  imports Socket
begin

text \<open>
  A socket behind a network that behaves like UDP: datagrams get lost, duplicated and reordered,
  the clocks run as they like, so that unfinished messages are thrown away as old, and other
  processes send whatever they like to the same port. Two things are left: what arrives from an
  honest sender is what it sent, and a message whose datagrams all arrive in time is delivered,
  whatever happens around it. Both rest on an invariant of the abstract receiver: under a key the
  adversary cannot use, there is always a part of one message.
\<close>

section \<open>Part of a message\<close>

text \<open>What the datagrams of a message do to a part of it, duplicates included.\<close>

lemma spec_info_part:
  "spec_info (length cs) (length (concat cs)) (part cs b F) =
     (if b then ((None, DUPLICATE_DATAGRAM), part cs b F) else check_complete (part cs True F))"
  by (simp add: part_def del: check_complete.simps)

lemma spec_fragment_part:
  assumes "k < length cs" "length cs < 2 ^ 32"
  shows "spec_fragment k (Some (cs ! k)) (part cs b F) =
     (if k \<in> F then ((None, DUPLICATE_DATAGRAM), part cs b F) else check_complete (part cs b (insert k F)))"
proof -
  have "(\<lambda>j. if j \<in> F then Some (cs ! j) else None)(k \<mapsto> cs ! k) =
      (\<lambda>j. if j = k \<or> j \<in> F then Some (cs ! j) else None)" by auto
  with assms show ?thesis by (auto simp: part_def simp del: check_complete.simps)
qed

definition partly :: "byte list list \<Rightarrow> partial_message \<Rightarrow> bool" where
  "partly cs p \<longleftrightarrow> (\<exists>b F. F \<subseteq> {..<length cs} \<and> p = part cs b F)"

lemma partlyI [intro]: "F \<subseteq> {..<length cs} \<Longrightarrow> partly cs (part cs b F)"
  by (auto simp: partly_def)

lemma partly_nothing [simp]: "partly cs nothing"
  using partlyI [of "{}" cs False] by (simp add: part_nothing)

text \<open>The verdict is silence or the message, and a part of the message is left.\<close>

lemma partly_complete:
  assumes "F \<subseteq> {..<length cs}" "check_complete (part cs b F) = ((m, c), q)"
  shows "partly cs q \<and> m \<in> {None, Some (concat cs)}"
  using assms check_complete_part [OF assms(1), of b] by (auto split: if_splits)

lemma partly_step:
  assumes "partly cs (st (ep, i))" "length cs < 2 ^ 32" "(ep, p) \<in> set (message_events ep i cs)"
    and "spec_receive ep p st = ((m, c), st')"
  shows "partly cs (st' (ep, i)) \<and> m \<in> {None, Some (concat cs)} \<and> \<not> spec_truncating ep p st"
proof -
  from assms(1) obtain b F where F: "F \<subseteq> {..<length cs}" and st: "st (ep, i) = part cs b F"
    by (auto simp: partly_def)
  from assms(3) consider (info) "p = Info i (length cs) (length (concat cs))"
    | (fragment) k where "p = Fragment i k (Some (cs ! k))" "k < length cs"
    by (auto simp: message_events_def)
  then show ?thesis
  proof cases
    case info
    have "\<not> spec_truncating ep p st"
      using F by (auto simp: info st part_def split: if_splits)
    with assms(4) F partly_complete [OF F, of True] show ?thesis
      by (auto simp: info st at_key_def spec_info_part simp del: spec_info.simps check_complete.simps
          split: prod.splits if_splits)
  next
    case fragment
    then have "insert k F \<subseteq> {..<length cs}" using F by simp
    with assms(4) F partly_complete [OF this, of b] show ?thesis
      by (auto simp: fragment st at_key_def spec_fragment_part [OF fragment(2) assms(2)]
          simp del: spec_fragment.simps check_complete.simps split: prod.splits if_splits)
  qed
qed

section \<open>The invariant of the abstract receiver\<close>

text \<open>
  Two fragmented messages of one sender have different ids, unless they are the same message
  (sent again, say).
\<close>

definition unique_ids :: "'ep traffic \<Rightarrow> bool" where
  "unique_ids sends \<longleftrightarrow>
     (\<forall>(ep, x) \<in> set sends. \<forall>(ep', y) \<in> set sends.
        ep = ep' \<and> fragmented x \<and> fragmented y \<and> sent_id x = sent_id y \<longrightarrow> sent_chunks x = sent_chunks y)"

text \<open>Under the keys in \<open>K\<close> there are only parts of messages that were sent.\<close>

definition collected :: "('ep \<times> u32) set \<Rightarrow> 'ep traffic \<Rightarrow> 'ep partials \<Rightarrow> bool" where
  "collected K sends st \<longleftrightarrow>
     (\<forall>(ep, i) \<in> K. st (ep, i) = nothing \<or>
        (\<exists>x. (ep, x) \<in> set sends \<and> fragmented x \<and> sent_id x = i \<and> partly (sent_chunks x) (st (ep, i))))"

text \<open>An event with a key in \<open>K\<close> belongs to a message that was sent.\<close>

definition genuine :: "('ep \<times> u32) set \<Rightarrow> 'ep traffic \<Rightarrow> 'ep event \<Rightarrow> bool" where
  "genuine K sends e \<longleftrightarrow>
     (\<forall>k \<in> K. event_key e = Some k \<longrightarrow>
        (\<exists>x. (fst e, x) \<in> set sends \<and> fragmented x \<and> e \<in> set (sent_events (fst e) x)))"

lemma sent_event_key: "fragmented x \<Longrightarrow> e \<in> set (sent_events ep x) \<Longrightarrow> event_key e = Some (ep, sent_id x)"
  using msg_events_key [of e "(ep, sent_id x, sent_chunks x)"] by (simp add: sent_events_def)

lemma collected_step:
  assumes all: "\<forall>(ep, x) \<in> set sends. valid_sending x" and u: "unique_ids sends"
    and st: "collected K sends st" and g: "genuine K sends (ep, p)"
    and r: "spec_receive ep p st = ((m, c), st')"
  shows "collected K sends st'"
    and "event_key (ep, p) = Some k \<Longrightarrow> k \<in> K \<Longrightarrow>
      \<not> spec_truncating ep p st \<and> (\<forall>msg. m = Some msg \<longrightarrow> (\<exists>x. (ep, x) \<in> set sends \<and> msg = sent_message x))"
proof -
  have own: "(\<exists>x. (ep, x) \<in> set sends \<and> fragmented x \<and> sent_id x = i \<and> partly (sent_chunks x) (st' (ep, i))) \<and>
      \<not> spec_truncating ep p st \<and> (\<forall>msg. m = Some msg \<longrightarrow> (\<exists>x. (ep, x) \<in> set sends \<and> msg = sent_message x))"
    if k: "event_key (ep, p) = Some (ep, i)" "(ep, i) \<in> K" for i
  proof -
    from g k obtain x where x: "(ep, x) \<in> set sends" "fragmented x" "(ep, p) \<in> set (sent_events ep x)"
      by (auto simp: genuine_def)
    from sent_event_key [OF x(2,3)] k have i: "sent_id x = i" by simp
    from x(1) all have v: "valid_sending x" by auto
    have "partly (sent_chunks x) (st (ep, i))"
    proof -
      from st k(2) consider "st (ep, i) = nothing"
        | y where "(ep, y) \<in> set sends" "fragmented y" "sent_id y = i" "partly (sent_chunks y) (st (ep, i))"
        by (auto simp: collected_def)
      then show ?thesis
      proof cases
        case (2 y)
        with u x i have "sent_chunks y = sent_chunks x" by (fastforce simp: unique_ids_def)
        with 2(4) show ?thesis by simp
      qed simp
    qed
    moreover have "(ep, p) \<in> set (message_events ep i (sent_chunks x))"
      using x(2,3) i by (simp add: sent_events_def)
    ultimately have "partly (sent_chunks x) (st' (ep, i)) \<and> m \<in> {None, Some (concat (sent_chunks x))} \<and>
        \<not> spec_truncating ep p st"
      using partly_step [of "sent_chunks x" st ep i p m c st'] sent_chunk_bounds(2) [OF v] r by simp
    with x(1,2) i sent_chunk_bounds(1) [OF v] show ?thesis by auto
  qed
  have key: "fst k = ep" if "event_key (ep, p) = Some k" for k
    using that by (cases p) auto
  show "collected K sends st'"
    unfolding collected_def
  proof (clarify)
    fix ep' i assume K: "(ep', i) \<in> K" and n: "\<nexists>x. (ep', x) \<in> set sends \<and> fragmented x \<and> sent_id x = i \<and>
      partly (sent_chunks x) (st' (ep', i))"
    show "st' (ep', i) = nothing"
    proof (cases "event_key (ep, p) = Some (ep', i)")
      case True
      with key [OF True] own [of i] K n show ?thesis by auto
    next
      case False
      have "st' (ep', i) = st (ep', i)"
      proof (cases "event_key (ep, p)")
        case None
        then obtain v where "\<And>st. spec_receive ep p st = (v, st)" using unkeyed_event [of ep p] by metis
        with r show ?thesis by simp
      next
        case (Some k)
        then obtain f where "\<And>st. spec_receive ep p st = at_key k f st" using keyed_event [of ep p k] by metis
        with r False Some show ?thesis by (auto simp: at_key_def split: prod.splits)
      qed
      with st K n show ?thesis by (fastforce simp: collected_def)
    qed
  qed
  assume k: "event_key (ep, p) = Some k" "k \<in> K"
  moreover obtain i where "k = (ep, i)" using k(1) key by (cases k) auto
  ultimately have "event_key (ep, p) = Some (ep, i)" "(ep, i) \<in> K" by simp_all
  from own [OF this] show "\<not> spec_truncating ep p st \<and>
      (\<forall>msg. m = Some msg \<longrightarrow> (\<exists>x. (ep, x) \<in> set sends \<and> msg = sent_message x))"
    by (elim conjE) (intro conjI)
qed

lemma collected_weaken:
  assumes "collected K sends st" "\<And>k. st' k = st k \<or> st' k = nothing"
  shows "collected K sends st'"
  unfolding collected_def
proof (clarify)
  fix ep i
  assume k: "(ep, i) \<in> K"
    and n: "\<nexists>x. (ep, x) \<in> set sends \<and> fragmented x \<and> sent_id x = i \<and> partly (sent_chunks x) (st' (ep, i))"
  from assms(1) k have "st (ep, i) = nothing \<or> (\<exists>x. (ep, x) \<in> set sends \<and> fragmented x \<and> sent_id x = i \<and>
      partly (sent_chunks x) (st (ep, i)))"
    unfolding collected_def by blast
  with assms(2) [of "(ep, i)"] n show "st' (ep, i) = nothing" by auto
qed

lemma abs_map_clean:
  "abs_map (remove_old_packages limit ps) k = abs_map ps k \<or>
     abs_map (remove_old_packages limit ps) k = nothing"
  by (simp add: abs_map_def remove_old_packages_def split: option.split)

section \<open>The socket\<close>

text \<open>What handling a datagram does, on the abstract receiver: clean up, then receive what passes.\<close>

definition datagram_effect ::
    "host \<Rightarrow> magic \<Rightarrow> byte list \<Rightarrow> 'ep \<Rightarrow> 'ep partials \<Rightarrow> byte list option \<times> 'ep partials" where
  "datagram_effect h m d ep st =
     (if passes m d then (case spec_receive ep (parse h d) st of (v, st') \<Rightarrow> (fst v, st')) else (None, st))"

lemma check_complete_ok: "check_complete p = ((Some m, c), q) \<Longrightarrow> c = OK"
  by (cases p rule: check_complete.cases) (auto simp: Let_def split: if_splits)

lemma spec_receive_ok: "spec_receive ep p st = ((Some m, c), st') \<Longrightarrow> c = OK"
proof (cases p)
  case (Info i n len)
  assume "spec_receive ep p st = ((Some m, c), st')"
  then show ?thesis
    by (cases "st (ep, i)") (auto simp: Info at_key_def simp del: check_complete.simps
        dest: check_complete_ok split: prod.splits if_splits)
next
  case (Fragment i k q)
  assume "spec_receive ep p st = ((Some m, c), st')"
  then show ?thesis
    by (cases "st (ep, i)") (auto simp: Fragment at_key_def simp del: check_complete.simps
        dest: check_complete_ok split: prod.splits if_splits option.splits)
next
  case (Whole q)
  assume "spec_receive ep p st = ((Some m, c), st')"
  then show ?thesis by (cases q) (auto simp: Whole)
qed auto

lemma socket_effect:
  assumes "socket_inv s" "socket_adm h s t d ep"
  shows "\<exists>b e s'. socket_handler h pool s t d ep = Inr (b, e, s') \<and> socket_inv s' \<and>
    magic_header_bytes s' = magic_header_bytes s \<and> max_reassembly_age s' = max_reassembly_age s \<and>
    datagram_effect h (magic_header_bytes s) d ep (abs_map (reassembly_v5 (clean t s))) =
      (map_option buffer_bytes b, abs_map (reassembly_v5 s')) \<and>
    (passes (magic_header_bytes s) d \<longrightarrow>
      err_code e = snd (fst (spec_receive ep (parse h d) (abs_map (reassembly_v5 (clean t s))))))"
proof (cases "passes (magic_header_bytes s) d")
  case True
  have c: "all_consistent (reassembly_v5 (clean t s))"
    using assms(1) all_consistent_clean by (simp add: socket_inv_def)
  from assms(2) handle_datagram_implements [OF c, of d h ep pool "access_time t" "error_of_code GENERIC_ERROR"]
  obtain b e ps where h: "handle_datagram h pool (access_time t) d ep (error_of_code GENERIC_ERROR)
      (reassembly_v5 (clean t s)) = Inr (b, e, ps)" "all_consistent ps"
      "spec_receive ep (parse h d) (abs_map (reassembly_v5 (clean t s))) =
        ((map_option buffer_bytes b, err_code e), abs_map ps)"
    by (auto simp: socket_adm_def implements_def prod_eq_iff)
  have "is_error e \<Longrightarrow> b = None"
    using h(3) spec_receive_ok [of ep "parse h d"] by (cases b) (auto simp: is_error_def)
  with h True socket_handle_passes [OF True, of h pool t ep "error_of_code GENERIC_ERROR"] show ?thesis
    by (auto simp: socket_handler_def socket_inv_def datagram_effect_def)
next
  case False
  with socket_handle_drops [OF False, of h pool t ep "error_of_code GENERIC_ERROR"] assms(1) show ?thesis
    by (auto simp: socket_handler_def socket_inv_def datagram_effect_def all_consistent_clean)
qed

lemma whole_datagram:
  assumes "sizeof_Header + length msg < 2 ^ 32"
  shows "parse h (wire_non_fragmented m msg) = Whole (Some msg)" "passes m (wire_non_fragmented m msg)"
    "length (wire_non_fragmented m msg) = sizeof_Header + length msg"
  using assms by (simp_all add: wire_non_fragmented_def wire passes_def layout)

text \<open>A datagram that is a message of its own is handed out in every state.\<close>

lemma whole_handled:
  assumes "socket_inv s" "passes (magic_header_bytes s) d" "parse h d = Whole (Some m)" "length d < 2 ^ 32"
  shows "\<exists>b e s'. socket_handler h pool s t d ep = Inr (Some b, e, s') \<and> socket_inv s' \<and> valid_buffer b \<and>
    magic_header_bytes s' = magic_header_bytes s \<and> buffer_bytes b = m"
proof -
  have "\<not> truncating h d ep (reassembly_v5 (clean t s))"
    using assms(3) by (auto simp: truncating_def parse_def split: if_splits)
  then have adm: "socket_adm h s t d ep" using assms(4) by (simp add: socket_adm_def)
  from socket_effect [OF assms(1) this, of pool] obtain b e s' where
    h: "socket_handler h pool s t d ep = Inr (b, e, s')" "socket_inv s'" "magic_header_bytes s' = magic_header_bytes s"
    and eff: "datagram_effect h (magic_header_bytes s) d ep (abs_map (reassembly_v5 (clean t s))) =
      (map_option buffer_bytes b, abs_map (reassembly_v5 s'))" by blast
  from eff assms(2,3) obtain buf where "b = Some buf" "buffer_bytes buf = m"
    by (cases b) (simp_all add: datagram_effect_def)
  with h sock.handle_ok [OF assms(1) adm, of pool] show ?thesis by auto
qed

text \<open>The datagrams that bear a key in \<open>K\<close>, and the states and datagrams the invariant is about.\<close>

definition keyed :: "host \<Rightarrow> ('ep \<times> u32) set \<Rightarrow> byte list \<Rightarrow> 'ep \<Rightarrow> bool" where
  "keyed h K d ep \<longleftrightarrow> (\<exists>k \<in> K. event_key (ep, parse h d) = Some k)"

definition lossy_inv :: "('ep \<times> u32) set \<Rightarrow> 'ep traffic \<Rightarrow> 'ep Socket \<Rightarrow> bool" where
  "lossy_inv K sends s \<longleftrightarrow> socket_inv s \<and> collected K sends (abs_map (reassembly_v5 s))"

definition lossy_adm ::
    "host \<Rightarrow> ('ep \<times> u32) set \<Rightarrow> 'ep traffic \<Rightarrow> 'ep Socket \<Rightarrow> clocks \<Rightarrow> byte list \<Rightarrow> 'ep \<Rightarrow> bool" where
  "lossy_adm h K sends s t d ep \<longleftrightarrow>
     (if keyed h K d ep then genuine K sends (ep, parse h d) \<and> length d < 2 ^ 32 else socket_adm h s t d ep)"

lemma collected_clean:
  "collected K sends (abs_map (reassembly_v5 s)) \<Longrightarrow> collected K sends (abs_map (reassembly_v5 (clean t s)))"
  by (erule collected_weaken) (simp add: abs_map_clean)

text \<open>What a completed message is: one that was sent, or the payload of a datagram of its own.\<close>

definition authentic ::
    "host \<Rightarrow> ('ep \<times> u32) set \<Rightarrow> 'ep traffic \<Rightarrow> byte list \<Rightarrow> 'ep \<Rightarrow> OwningBuffer option \<Rightarrow> bool" where
  "authentic h K sends d ep b \<longleftrightarrow>
     (\<forall>buf. b = Some buf \<longrightarrow>
        (keyed h K d ep \<longrightarrow> (\<exists>x. (ep, x) \<in> set sends \<and> buffer_bytes buf = sent_message x)) \<and>
        (event_key (ep, parse h d) = None \<longrightarrow> parse h d = Whole (Some (buffer_bytes buf))))"

text \<open>A datagram that is a message of its own is handed out.\<close>

definition answered :: "host \<Rightarrow> magic \<Rightarrow> byte list \<Rightarrow> OwningBuffer option \<Rightarrow> bool" where
  "answered h m d b \<longleftrightarrow>
     (\<forall>msg. passes m d \<and> parse h d = Whole (Some msg) \<longrightarrow> map_option buffer_bytes b = Some msg)"

lemma unkeyed_message:
  "event_key (ep, p) = None \<Longrightarrow> spec_receive ep p st = ((Some m, c), st') \<Longrightarrow> p = Whole (Some m)"
proof (cases p)
  case (Whole q)
  assume "spec_receive ep p st = ((Some m, c), st')"
  then show ?thesis by (cases q) (simp_all add: Whole)
qed simp_all

lemma lossy_step:
  assumes all: "\<forall>(ep, x) \<in> set sends. valid_sending x" and u: "unique_ids sends"
    and inv: "lossy_inv K sends s" and adm: "lossy_adm h K sends s t d ep"
  shows "\<exists>b e s'. socket_handler h pool s t d ep = Inr (b, e, s') \<and> lossy_inv K sends s' \<and>
    magic_header_bytes s' = magic_header_bytes s \<and> max_reassembly_age s' = max_reassembly_age s \<and>
    authentic h K sends d ep b \<and> answered h (magic_header_bytes s) d b"
proof -
  let ?st = "abs_map (reassembly_v5 (clean t s))"
  have st: "collected K sends ?st" using inv by (simp only: lossy_inv_def collected_clean)
  have g: "genuine K sends (ep, parse h d)"
    using adm by (auto simp: lossy_adm_def genuine_def keyed_def split: if_splits)
  obtain m c st' where r: "spec_receive ep (parse h d) ?st = ((m, c), st')"
    by (metis prod.collapse)
  note step = collected_step [OF all u st g r]
  have "socket_adm h s t d ep"
  proof (cases "keyed h K d ep")
    case True
    then obtain k where "k \<in> K" "event_key (ep, parse h d) = Some k" by (auto simp: keyed_def)
    from step(2) [OF this(2,1)] truncating_spec [of h d ep "reassembly_v5 (clean t s)"] True adm
    show ?thesis by (auto simp: socket_adm_def lossy_adm_def)
  qed (use adm in \<open>simp add: lossy_adm_def\<close>)
  with inv socket_effect [of s h t d ep pool] obtain b e s' where
    h: "socket_handler h pool s t d ep = Inr (b, e, s')" "socket_inv s'"
      "magic_header_bytes s' = magic_header_bytes s" "max_reassembly_age s' = max_reassembly_age s"
    and eff: "datagram_effect h (magic_header_bytes s) d ep ?st = (map_option buffer_bytes b, abs_map (reassembly_v5 s'))"
    by (auto simp: lossy_inv_def)
  have "collected K sends (abs_map (reassembly_v5 s'))"
    using eff step(1) st r by (auto simp: datagram_effect_def split: if_splits)
  moreover have "authentic h K sends d ep b"
    unfolding authentic_def
  proof (intro allI impI)
    fix buf assume b: "b = Some buf"
    with eff r have m: "m = Some (buffer_bytes buf)" by (auto simp: datagram_effect_def split: if_splits)
    with step(2) unkeyed_message [of ep "parse h d" ?st "buffer_bytes buf" c st'] r
    show "(keyed h K d ep \<longrightarrow> (\<exists>x. (ep, x) \<in> set sends \<and> buffer_bytes buf = sent_message x)) \<and>
        (event_key (ep, parse h d) = None \<longrightarrow> parse h d = Whole (Some (buffer_bytes buf)))"
      by (fastforce simp: keyed_def)
  qed
  moreover have "answered h (magic_header_bytes s) d b"
    unfolding answered_def
  proof (intro allI impI)
    fix msg assume "passes (magic_header_bytes s) d \<and> parse h d = Whole (Some msg)"
    with eff show "map_option buffer_bytes b = Some msg"
      by (simp add: datagram_effect_def del: map_option_eq_Some)
  qed
  ultimately show ?thesis using h by (auto simp: lossy_inv_def)
qed

section \<open>Runs over a lossy network\<close>

abbreviation arrivals ::
    "(clocks \<times> byte list \<times> 'ep) list \<Rightarrow> ('ep, 'ec) inbox" where
  "arrivals ds \<equiv> map (\<lambda>(t, d, ep). (t, Datagram d ep)) ds"

text \<open>
  A datagram from outside the set \<open>T\<close> of the trusted ones may be anything the socket can take.
\<close>

definition tolerable ::
    "host \<Rightarrow> (nat \<Rightarrow> byte) \<Rightarrow> (byte list \<Rightarrow> 'ep \<Rightarrow> bool) \<Rightarrow> 'ep Socket \<Rightarrow>
     (clocks \<times> byte list \<times> 'ep) list \<Rightarrow> bool" where
  "tolerable h pool T s ds \<longleftrightarrow>
     admissible_inbox (socket_handler h pool) (\<lambda>_ _. False) (\<lambda>s t d ep. T d ep \<or> socket_adm h s t d ep) s
       (arrivals ds :: ('ep, unit) inbox)"

lemma tolerable_Nil [simp]: "tolerable h pool T s []"
  by (simp add: tolerable_def)

lemma tolerable_Cons [simp]:
  "tolerable h pool T s ((t, d, ep) # ds) \<longleftrightarrow> (T d ep \<or> socket_adm h s t d ep) \<and>
     (case socket_handler h pool s t d ep of Inl f \<Rightarrow> True | Inr (b, e, s') \<Rightarrow> tolerable h pool T s' ds)"
  unfolding tolerable_def by (cases "socket_handler h pool s t d ep") auto

text \<open>A datagram that belongs to a message that was sent.\<close>

definition genuine_datagram :: "host \<Rightarrow> ('ep \<times> u32) set \<Rightarrow> 'ep traffic \<Rightarrow> byte list \<Rightarrow> 'ep \<Rightarrow> bool" where
  "genuine_datagram h K sends d ep \<longleftrightarrow> genuine K sends (ep, parse h d) \<and> length d < 2 ^ 32 \<and>
     (keyed h K d ep \<or> event_key (ep, parse h d) = None)"

lemma lossy_run:
  assumes all: "\<forall>(ep, x) \<in> set sends. valid_sending x" and u: "unique_ids sends"
    and "lossy_inv K sends s" and "tolerable h pool T s ds"
    and "\<forall>(t, d, ep) \<in> set ds. T d ep \<or> keyed h K d ep \<longrightarrow> genuine_datagram h K sends d ep"
  shows "\<exists>rs s'. socket_run h pool s ds = Inr (rs, s') \<and>
    list_all2 (\<lambda>(t, d, ep) (ep', b, e). ep' = ep \<and> authentic h K sends d ep b \<and>
      answered h (magic_header_bytes s) d b) ds rs"
  using assms(3-)
proof (induction ds arbitrary: s)
  case (Cons x ds)
  obtain t d ep where x: "x = (t, d, ep)" by (metis prod_cases3)
  have trusted: "genuine K sends (ep, parse h d)" "length d < 2 ^ 32"
      "keyed h K d ep \<or> event_key (ep, parse h d) = None" if "T d ep \<or> keyed h K d ep"
    using Cons.prems(3) that by (auto simp: x genuine_datagram_def)
  have "lossy_adm h K sends s t d ep"
  proof (cases "keyed h K d ep")
    case False
    have "socket_adm h s t d ep" if "T d ep"
    proof -
      have "event_key (ep, parse h d) = None" using trusted(3) that False by simp
      then have "\<not> truncating h d ep (reassembly_v5 (clean t s))"
        by (auto simp: truncating_def parse_def split: if_splits)
      then show ?thesis using trusted(2) that by (simp add: socket_adm_def)
    qed
    with False Cons.prems(2) show ?thesis by (auto simp: lossy_adm_def x)
  qed (use trusted in \<open>simp add: lossy_adm_def\<close>)
  from lossy_step [OF all u Cons.prems(1) this] obtain b e s' where
    h: "socket_handler h pool s t d ep = Inr (b, e, s')" "lossy_inv K sends s'" "authentic h K sends d ep b"
      "answered h (magic_header_bytes s) d b" "magic_header_bytes s' = magic_header_bytes s"
    by blast
  have "\<exists>rs s''. socket_run h pool s' ds = Inr (rs, s'') \<and>
      list_all2 (\<lambda>(t, d, ep) (ep', b, e). ep' = ep \<and> authentic h K sends d ep b \<and>
      answered h (magic_header_bytes s) d b) ds rs"
    unfolding h(5) [symmetric]
    by (rule Cons.IH [OF h(2)]) (use Cons.prems h(1) in \<open>auto simp: x\<close>)
  with h show ?case by (auto simp: x)
qed simp

lemma list_all2_member: "list_all2 P xs ys \<Longrightarrow> y \<in> set ys \<Longrightarrow> \<exists>x \<in> set xs. P x y"
  by (induction rule: list_all2_induct) auto

lemma list_all2_member1: "list_all2 P xs ys \<Longrightarrow> x \<in> set xs \<Longrightarrow> \<exists>y \<in> set ys. P x y"
  by (induction rule: list_all2_induct) auto

lemma delivered_member:
  "(ep, m) \<in> set (delivered rs) \<longleftrightarrow> (\<exists>b e. (ep, Some b, e) \<in> set rs \<and> m = buffer_bytes b)"
  by (induction rs rule: delivered.induct) auto


text \<open>Every datagram arrives twice, behind garbage of somebody else.\<close>

lemma garbage_tolerated: "length d < sizeof_Header \<Longrightarrow> socket_adm h s t d ep"
  by (simp add: socket_adm_def truncating_def layout)

lemma tolerable_trusted: "\<forall>(t, d, ep) \<in> set ds. T d ep \<Longrightarrow> tolerable h pool T s ds"
  by (induction ds arbitrary: s) (auto split: sum.split)


section \<open>A message that arrives in time\<close>

text \<open>One of its datagrams completes the message, or more of it is there afterwards.\<close>

lemma gather_step:
  assumes F: "F \<subseteq> {..<length cs}" and n: "\<not> (b \<and> F = {..<length cs})" and len: "length cs < 2 ^ 32"
    and st: "st (ep, i) = part cs b F" and p: "(ep, p) \<in> set (message_events ep i cs)"
    and r: "spec_receive ep p st = ((m, c), st')"
  shows "m = Some (concat cs) \<or>
    (\<exists>b' F'. F' \<subseteq> {..<length cs} \<and> \<not> (b' \<and> F' = {..<length cs}) \<and> st' (ep, i) = part cs b' F' \<and>
      (b \<or> p = Info i (length cs) (length (concat cs)) \<longrightarrow> b') \<and>
      (\<forall>k. k \<in> F \<or> p = Fragment i k (Some (cs ! k)) \<longrightarrow> k \<in> F'))"
    and "c = OK \<or> b \<or> F \<noteq> {}"
proof -
  from p consider (info) "p = Info i (length cs) (length (concat cs))"
    | (fragment) k where "p = Fragment i k (Some (cs ! k))" "k < length cs"
    by (auto simp: message_events_def)
  then have "(m = Some (concat cs) \<or>
    (\<exists>b' F'. F' \<subseteq> {..<length cs} \<and> \<not> (b' \<and> F' = {..<length cs}) \<and> st' (ep, i) = part cs b' F' \<and>
      (b \<or> p = Info i (length cs) (length (concat cs)) \<longrightarrow> b') \<and>
      (\<forall>k. k \<in> F \<or> p = Fragment i k (Some (cs ! k)) \<longrightarrow> k \<in> F'))) \<and> (c = OK \<or> b \<or> F \<noteq> {})"
  proof cases
    case info
    with r F n show ?thesis
      by (auto simp: st at_key_def spec_info_part check_complete_part [OF F]
          simp del: spec_info.simps check_complete.simps split: if_splits intro!: exI [of _ F])
  next
    case fragment
    then have F': "insert k F \<subseteq> {..<length cs}" using F by simp
    with fragment r F n show ?thesis
      by (auto simp: st at_key_def spec_fragment_part [OF fragment(2) len] check_complete_part [OF F'] insert_absorb
          simp del: spec_fragment.simps check_complete.simps split: if_splits
          intro!: exI [of _ b] exI [of _ "insert k F"])
  qed
  then show "m = Some (concat cs) \<or>
    (\<exists>b' F'. F' \<subseteq> {..<length cs} \<and> \<not> (b' \<and> F' = {..<length cs}) \<and> st' (ep, i) = part cs b' F' \<and>
      (b \<or> p = Info i (length cs) (length (concat cs)) \<longrightarrow> b') \<and>
      (\<forall>k. k \<in> F \<or> p = Fragment i k (Some (cs ! k)) \<longrightarrow> k \<in> F'))"
    and "c = OK \<or> b \<or> F \<noteq> {}" by blast+
qed

text \<open>The time stamp of one package, and when a package is young enough to be kept.\<close>

definition fresh_at :: "int set \<Rightarrow> 'ep \<times> u32 \<Rightarrow> 'ep Socket \<Rightarrow> bool" where
  "fresh_at A k s \<longleftrightarrow> pred_option (\<lambda>pkg. last_access (fst pkg) \<in> A) (reassembly_v5 s k)"

definition young :: "int set \<Rightarrow> 'ep Socket \<Rightarrow> clocks \<Rightarrow> bool" where
  "young A s t \<longleftrightarrow> (\<forall>a \<in> A. clean_time t - max_reassembly_age s \<le> a)"

lemma clean_fresh:
  "fresh_at A k s \<Longrightarrow> young A s t \<Longrightarrow> reassembly_v5 (clean t s) k = reassembly_v5 s k"
  by (fastforce simp: fresh_at_def young_def remove_old_packages_def split: option.split)

lemma event_key_header: "event_key (ep, parse h d) = Some k \<Longrightarrow> k = (ep, header_id h d)"
  by (auto simp: parse_def split: if_splits)

lemma handle_datagram_unkeyed:
  "event_key (ep, parse h d) = None \<Longrightarrow> handle_datagram h pool now d ep err ps = Inr (b, e, ps') \<Longrightarrow> ps' = ps"
  by (auto simp: parse_def handle_datagram_def split: if_splits prod.splits)

text \<open>Only an event with the key changes the package, and it stamps it with the clock.\<close>

lemma package_step:
  assumes h: "socket_handler h pool s t d ep = Inr (b, e, s')"
  shows "event_key (ep, parse h d) \<noteq> Some k \<Longrightarrow> reassembly_v5 s' k = reassembly_v5 (clean t s) k"
    and "fresh_at A k (clean t s) \<Longrightarrow> access_time t \<in> A \<Longrightarrow>
      reassembly_v5 (clean t s) k \<noteq> None \<or> err_code e = OK \<Longrightarrow> passes (magic_header_bytes s) d \<Longrightarrow> fresh_at A k s'"
proof -
  show "reassembly_v5 s' k = reassembly_v5 (clean t s) k" if k: "event_key (ep, parse h d) \<noteq> Some k"
  proof (cases "passes (magic_header_bytes s) d")
    case False
    with h socket_handle_drops [OF False, of h pool t ep "error_of_code GENERIC_ERROR"] show ?thesis
      by (auto simp: socket_handler_def)
  next
    case True
    with h socket_handle_passes [OF True, of h pool t ep "error_of_code GENERIC_ERROR"] obtain b ps where
      hd: "handle_datagram h pool (access_time t) d ep (error_of_code GENERIC_ERROR) (reassembly_v5 (clean t s)) =
        Inr (b, e, ps)" and s': "reassembly_v5 s' = ps"
      by (auto simp: socket_handler_def split: sum.splits)
    show ?thesis
    proof (cases "event_key (ep, parse h d)")
      case None
      with hd s' show ?thesis using handle_datagram_unkeyed by metis
    next
      case (Some k')
      with k event_key_header [OF Some] have "k \<noteq> (ep, header_id h d)" by auto
      with handle_datagram_frame [OF hd] s' show ?thesis by blast
    qed
  qed
  assume f: "fresh_at A k (clean t s)" "access_time t \<in> A" "reassembly_v5 (clean t s) k \<noteq> None \<or> err_code e = OK"
    and p: "passes (magic_header_bytes s) d"
  from h socket_handle_passes [OF p, of h pool t ep "error_of_code GENERIC_ERROR"] obtain b ps where
    hd: "handle_datagram h pool (access_time t) d ep (error_of_code GENERIC_ERROR) (reassembly_v5 (clean t s)) =
      Inr (b, e, ps)" and s': "reassembly_v5 s' = ps"
    by (auto simp: socket_handler_def split: sum.splits)
  show "fresh_at A k s'"
  proof (cases "k = (ep, header_id h d)")
    case True
    with f handle_datagram_frame [OF hd] s' show ?thesis
      by (cases "reassembly_v5 (clean t s) k"; cases "ps k") (auto simp: fresh_at_def)
  next
    case False
    with handle_datagram_frame [OF hd] s' have "reassembly_v5 s' k = reassembly_v5 (clean t s) k" by blast
    with f show ?thesis by (simp add: fresh_at_def)
  qed
qed

text \<open>
  The run on the datagrams that follow, with a part of the message there and the rest to come.
\<close>

lemma lossy_progress:
  assumes x: "valid_sending x" "fragmented x" "i = sent_id x" "cs = sent_chunks x"
    and "socket_run h pool s ds = Inr (rs, s')" "socket_inv s" "s_magic x = magic_header_bytes s"
    and "tolerable h pool (\<lambda>d ep'. ep' = ep \<and> d \<in> set (sent_datagrams x)) s ds"
    and "\<forall>(t, d, ep') \<in> set ds. young A s t \<and> (event_key (ep', parse h d) = Some (ep, i) \<longrightarrow>
      d \<in> set (sent_datagrams x) \<and> access_time t \<in> A)"
    and "fresh_at A (ep, i) s" "abs_map (reassembly_v5 s) (ep, i) = part cs b F"
    and "F \<subseteq> {..<length cs}" "\<not> (b \<and> F = {..<length cs})"
    and "\<not> b \<longrightarrow> (ep, Info i (length cs) (length (concat cs))) \<in> (\<lambda>(t, d, ep). (ep, parse h d)) ` set ds"
    and "\<forall>k \<in> {..<length cs} - F. (ep, Fragment i k (Some (cs ! k))) \<in> (\<lambda>(t, d, ep). (ep, parse h d)) ` set ds"
  shows "(ep, concat cs) \<in> set (delivered rs)"
  using assms(5-)
proof (induction ds arbitrary: s rs b F)
  case (Cons y ds)
  obtain t d ep' where y: "y = (t, d, ep')" by (metis prod_cases3)
  let ?s = "clean t s" and ?e = "(ep', parse h d)"
  have yg: "young A s t" and own: "event_key ?e = Some (ep, i) \<Longrightarrow> ep' = ep \<and> d \<in> set (sent_datagrams x) \<and> access_time t \<in> A"
    using Cons.prems(5) event_key_header [of ep' h d "(ep, i)"] by (auto simp: y)
  have cl: "reassembly_v5 ?s (ep, i) = reassembly_v5 s (ep, i)"
    using clean_fresh [OF Cons.prems(6) yg] .
  then have st: "abs_map (reassembly_v5 ?s) (ep, i) = part cs b F" and fr: "fresh_at A (ep, i) ?s"
    using Cons.prems(6,7) by (simp_all add: abs_map_def fresh_at_def)
  have len: "length cs < 2 ^ 32" and mag: "\<And>d. d \<in> set (sent_datagrams x) \<Longrightarrow> passes (magic_header_bytes s) d"
    using sent_chunk_bounds(2) [OF x(1)] sent_passes [OF x(1)] Cons.prems(3) by (simp_all add: x)
  have ev: "?e \<in> set (message_events ep i cs) \<and> length d < 2 ^ 32 \<and> event_key ?e = Some (ep, i)"
    if "ep' = ep" "d \<in> set (sent_datagrams x)"
  proof -
    have "(ep, parse h d) \<in> set (sent_events ep x)"
      using that(2) unfolding parse_sent(1) [OF x(1), of ep h, symmetric] by auto
    with parse_sent(2) [OF x(1) that(2)] sent_event_key [OF x(2) this] show ?thesis
      using x that(1) by (simp add: sent_events_def)
  qed
  obtain m c st' where r: "spec_receive ep' (parse h d) (abs_map (reassembly_v5 ?s)) = ((m, c), st')"
    by (metis prod.collapse)
  have "socket_adm h s t d ep'"
  proof (cases "ep' = ep \<and> d \<in> set (sent_datagrams x)")
    case True
    with ev have e: "(ep, parse h d) \<in> set (message_events ep i cs)" "length d < 2 ^ 32" by auto
    have "partly cs (abs_map (reassembly_v5 ?s) (ep, i))" unfolding st by (rule partlyI [OF Cons.prems(8)])
    from partly_step [of cs "abs_map (reassembly_v5 ?s)", OF this len e(1)] r True e(2) truncating_spec [of h d ep "reassembly_v5 ?s"] show ?thesis
      by (auto simp: socket_adm_def)
  qed (use Cons.prems(4) in \<open>auto simp: y\<close>)
  from socket_effect [OF Cons.prems(2) this, of pool] obtain b1 e1 s1 where
    h: "socket_handler h pool s t d ep' = Inr (b1, e1, s1)" "socket_inv s1"
      "magic_header_bytes s1 = magic_header_bytes s" "max_reassembly_age s1 = max_reassembly_age s"
    and eff: "datagram_effect h (magic_header_bytes s) d ep' (abs_map (reassembly_v5 ?s)) =
      (map_option buffer_bytes b1, abs_map (reassembly_v5 s1))"
    and code: "passes (magic_header_bytes s) d \<Longrightarrow> err_code e1 = c"
    using r by auto
  from Cons.prems(1) h(1) obtain rs1 where run: "socket_run h pool s1 ds = Inr (rs1, s')" and rs: "rs = (ep', b1, e1) # rs1"
    by (auto simp: y split: sum.splits)
  have tol: "tolerable h pool (\<lambda>d ep'. ep' = ep \<and> d \<in> set (sent_datagrams x)) s1 ds"
    using Cons.prems(4) h(1) by (simp add: y)
  have rest: "\<forall>(t, d, ep') \<in> set ds. young A s1 t \<and> (event_key (ep', parse h d) = Some (ep, i) \<longrightarrow>
      d \<in> set (sent_datagrams x) \<and> access_time t \<in> A)"
    using Cons.prems(5) h(4) by (auto simp: young_def)
  note IH = Cons.IH [OF run h(2) _ tol rest]
  have later: "(ep, concat cs) \<in> set (delivered rs1) \<Longrightarrow> (ep, concat cs) \<in> set (delivered rs)"
    by (auto simp: rs delivered_member)
  let ?E = "(\<lambda>(t, d, ep). (ep, parse h d)) ` set ds"
  have E: "(\<lambda>(t, d, ep). (ep, parse h d)) ` set (y # ds) = insert ?e ?E" by (simp add: y)
  note info = Cons.prems(10) [unfolded E] and frags = Cons.prems(11) [unfolded E]
  have keys: "event_key (ep, Info i (length cs) (length (concat cs))) = Some (ep, i)"
    "\<And>k. event_key (ep, Fragment i k (Some (cs ! k))) = Some (ep, i)" by simp_all
  show ?case
  proof (cases "event_key ?e = Some (ep, i)")
    case False
    note k = package_step(1) [OF h(1) False]
    have "fresh_at A (ep, i) s1" "abs_map (reassembly_v5 s1) (ep, i) = part cs b F"
      using k fr st by (simp_all add: fresh_at_def abs_map_def)
    note IH = IH [OF _ this Cons.prems(8,9)]
    have "(ep, Info i (length cs) (length (concat cs))) \<noteq> ?e" "(ep, Fragment i k (Some (cs ! k))) \<noteq> ?e" for k
      using False keys by metis+
    then have "\<not> b \<longrightarrow> (ep, Info i (length cs) (length (concat cs))) \<in> ?E"
      "\<forall>k \<in> {..<length cs} - F. (ep, Fragment i k (Some (cs ! k))) \<in> ?E"
      using info frags by blast+
    from later [OF IH [OF _ this]] show ?thesis using Cons.prems(3) h(3) by simp
  next
    case True
    with own have o: "ep' = ep" "d \<in> set (sent_datagrams x)" "access_time t \<in> A" by auto
    with ev have e: "(ep, parse h d) \<in> set (message_events ep i cs)" by auto
    note p = mag [OF o(2)]
    note g = gather_step [of F cs b "abs_map (reassembly_v5 ?s)", OF Cons.prems(8,9) len st e r [unfolded o(1)]]
    have b1: "map_option buffer_bytes b1 = m" "abs_map (reassembly_v5 s1) = st'"
      using eff r p by (simp_all add: datagram_effect_def)
    have "reassembly_v5 ?s (ep, i) \<noteq> None \<or> err_code e1 = OK"
    proof (rule ccontr)
      assume n: "\<not> ?thesis"
      then have "reassembly_v5 ?s (ep, i) = None" by blast
      then have "part cs b F = nothing" using st unfolding abs_map_def by simp
      then have "\<not> b \<and> F = {}" by (auto simp: part_def nothing_def fun_eq_iff split: if_splits)
      with g(2) code [OF p] n show False by simp
    qed
    from package_step(2) [OF h(1) fr o(3) this p] have f1: "fresh_at A (ep, i) s1" .
    from g(1) consider "m = Some (concat cs)"
      | (more) b' F' where "F' \<subseteq> {..<length cs}" "\<not> (b' \<and> F' = {..<length cs})" "st' (ep, i) = part cs b' F'"
        "b \<or> parse h d = Info i (length cs) (length (concat cs)) \<longrightarrow> b'"
        "\<forall>k. k \<in> F \<or> parse h d = Fragment i k (Some (cs ! k)) \<longrightarrow> k \<in> F'" by blast
    then show ?thesis
    proof cases
      case 1
      with b1(1) o(1) show ?thesis by (auto simp: rs delivered_member)
    next
      case more
      from b1(2) more(3) have "abs_map (reassembly_v5 s1) (ep, i) = part cs b' F'" by simp
      note IH = IH [OF _ f1 this more(1,2)]
      have "\<not> b' \<longrightarrow> (ep, Info i (length cs) (length (concat cs))) \<in> ?E"
        using info more(4) by auto
      moreover have "\<forall>k \<in> {..<length cs} - F'. (ep, Fragment i k (Some (cs ! k))) \<in> ?E"
      proof
        fix k assume k: "k \<in> {..<length cs} - F'"
        then have "k \<in> {..<length cs} - F" and "(ep, Fragment i k (Some (cs ! k))) \<noteq> ?e"
          using more(5) by auto
        with frags show "(ep, Fragment i k (Some (cs ! k))) \<in> ?E" by blast
      qed
      ultimately show ?thesis using later [OF IH] Cons.prems(3) h(3) by simp
    qed
  qed
next
  case Nil
  from Nil.prems(8,10,11) have "b \<and> F = {..<length cs}" by auto
  with Nil.prems(9) show ?case by blast
qed



end
