(* ===== verification/Npcap_Requests.thy ===== *)
theory Npcap_Requests
  imports Socket_Npcap Lossy_Network
begin

text \<open>
  Several asynchronous receives of the npcap socket at a time: the requests of
  src/ecaludp/src/socket_npcap.cpp in the queue of src/ecaludp/src/async_udpcap_socket.cpp. A datagram
  is handled for the request that is at the front of the queue; when it does not complete a message,
  the request is put back at the end of the queue, so that the datagrams of one message are handled for
  different requests. The theory shows that this makes no difference to what is received.
\<close>

section \<open>The system\<close>

text \<open>
  The socket and the thread with its queue, where a request is known by a value of \<open>'k\<close>. The other
  fields record the past: the calls of the user, the results udpcap's receive call has returned,
  and the calls of completion handlers with the buffer, the endpoint assigned before, and the error.
\<close>

record ('ep, 'k, 'addr) request_system =
  npcap_socket :: "'ep SocketNpcap"
  request_thread :: "'k async_socket"
  user_calls :: "'k list"
  results :: "'addr npcap_inbox"
  completed :: "('k \<times> OwningBuffer option \<times> 'ep option \<times> Error) list"
  crash :: "fault option"

text \<open>A socket that has been bound: its thread is started, with no requests yet.\<close>

definition bound_system :: "'ep SocketNpcap \<Rightarrow> ('ep, 'k, 'addr) request_system" where
  "bound_system s =
     \<lparr>npcap_socket = s, request_thread = async_init\<lparr>wait_thread := Waiting_For_Request\<rparr>, user_calls = [],
      results = [], completed = [], crash = None\<rparr>"

text \<open>\<^verbatim>\<open>async_receive_from\<close>, and the request it and the handler below put into the queue.\<close>

definition request_datagram :: "'k \<Rightarrow> ('ep, 'k, 'addr) request_system \<Rightarrow> ('ep, 'k, 'addr) request_system" where
  "request_datagram k sys = sys\<lparr>request_thread := asyncReceiveFrom k (request_thread sys)\<rparr>"

definition call_async_receive_from :: "'k \<Rightarrow> ('ep, 'k, 'addr) request_system \<Rightarrow> ('ep, 'k, 'addr) request_system" where
  "call_async_receive_from k sys = (request_datagram k sys)\<lparr>user_calls := user_calls sys @ [k]\<rparr>"

text \<open>The handler that is given to the asynchronous udpcap socket.\<close>

definition datagram_received ::
    "host \<Rightarrow> (nat \<Rightarrow> byte) \<Rightarrow> ('addr \<Rightarrow> 'ep) \<Rightarrow> 'k \<Rightarrow> clocks \<Rightarrow> 'addr udpcap_result \<Rightarrow>
     ('ep, 'k, 'addr) request_system \<Rightarrow> ('ep, 'k, 'addr) request_system" where
  "datagram_received h pool to_endpoint k t r sys =
     (let error = toEcaludpError (u_error r)
      in if is_error error then sys\<lparr>completed := completed sys @ [(k, None, None, error)]\<rparr>
         else
           (let ep = to_endpoint (u_sender r)
            in (case npcap_handle_datagram h pool (npcap_socket sys) t (u_bytes r) ep (error_of_code GENERIC_ERROR) of
                  Inl f \<Rightarrow> sys\<lparr>crash := Some f\<rparr>
                | Inr (Some b, e, s) \<Rightarrow>
                    sys\<lparr>npcap_socket := s, completed := completed sys @ [(k, Some b, Some ep, e)]\<rparr>
                | Inr (None, e, s) \<Rightarrow> request_datagram k (sys\<lparr>npcap_socket := s\<rparr>))))"

text \<open>
  What can happen: a call of the user, from any thread; a step of the socket's thread, which takes a request
  from the queue, or whose receive call returns, after which the handler runs; and closing the socket.
  A step that is not possible changes nothing.
\<close>

datatype ('k, 'addr) request_event =
    User_Call 'k
  | Take_Request
  | Result clocks "'addr udpcap_result"
  | Close_Call

fun request_step ::
    "host \<Rightarrow> (nat \<Rightarrow> byte) \<Rightarrow> ('addr \<Rightarrow> 'ep) \<Rightarrow> ('k, 'addr) request_event \<Rightarrow>
     ('ep, 'k, 'addr) request_system \<Rightarrow> ('ep, 'k, 'addr) request_system" where
  "request_step h pool to_endpoint (User_Call k) sys = call_async_receive_from k sys"
| "request_step h pool to_endpoint Take_Request sys =
     (case take_request (request_thread sys) of
        None \<Rightarrow> sys
      | Some thread \<Rightarrow> sys\<lparr>request_thread := thread\<rparr>)"
| "request_step h pool to_endpoint (Result t r) sys =
     (case wait_thread (request_thread sys) of
        Receiving k \<Rightarrow>
          (case call_handler (u_error r) (length (u_bytes r)) (request_thread sys) of
             None \<Rightarrow> sys
           | Some thread \<Rightarrow>
               datagram_received h pool to_endpoint k t r
                 (sys\<lparr>request_thread := thread, results := results sys @ [(t, r)]\<rparr>))
      | _ \<Rightarrow> sys)"
| "request_step h pool to_endpoint Close_Call sys =
     sys\<lparr>request_thread := async_close (request_thread sys)\<rparr>"

text \<open>After undefined behaviour nothing is said any more.\<close>

definition request_run ::
    "host \<Rightarrow> (nat \<Rightarrow> byte) \<Rightarrow> ('addr \<Rightarrow> 'ep) \<Rightarrow> ('k, 'addr) request_event list \<Rightarrow>
     ('ep, 'k, 'addr) request_system \<Rightarrow> ('ep, 'k, 'addr) request_system" where
  "request_run h pool to_endpoint es sys =
     fold (\<lambda>e sys. if crash sys = None then request_step h pool to_endpoint e sys else sys) es sys"

section \<open>What is received, whoever asked for it\<close>

fun outcomes ::
    "host \<Rightarrow> (nat \<Rightarrow> byte) \<Rightarrow> ('addr \<Rightarrow> 'ep) \<Rightarrow> 'ep SocketNpcap \<Rightarrow> 'addr npcap_inbox \<Rightarrow>
     fault + (OwningBuffer option \<times> 'ep option \<times> Error) list \<times> 'ep SocketNpcap" where
  "outcomes h pool to_endpoint s [] = Inr ([], s)"
| "outcomes h pool to_endpoint s ((t, r) # rs) =
     (let error = toEcaludpError (u_error r);
          ep = to_endpoint (u_sender r)
      in if is_error error then map_sum id (map_prod (Cons (None, None, error)) id) (outcomes h pool to_endpoint s rs)
         else
           (case npcap_handle_datagram h pool s t (u_bytes r) ep (error_of_code GENERIC_ERROR) of
              Inl f \<Rightarrow> Inl f
            | Inr (Some b, e, s) \<Rightarrow>
                map_sum id (map_prod (Cons (Some b, Some ep, e)) id) (outcomes h pool to_endpoint s rs)
            | Inr (None, e, s) \<Rightarrow> outcomes h pool to_endpoint s rs))"

lemma outcomes_append:
  "outcomes h pool to_endpoint s (rs @ rs') =
     (case outcomes h pool to_endpoint s rs of
        Inl f \<Rightarrow> Inl f
      | Inr (xs, s) \<Rightarrow> map_sum id (map_prod (append xs) id) (outcomes h pool to_endpoint s rs'))"
proof (induction h pool to_endpoint s rs rule: outcomes.induct)
  case (1 h pool to_endpoint s)
  show ?case by (cases "outcomes h pool to_endpoint s rs'") auto
next
  case (2 h pool to_endpoint s t r rs)
  show ?case
  proof (cases "is_error (toEcaludpError (u_error r))")
    case True
    from 2(1) [OF refl refl True] show ?thesis using True
      by (cases "outcomes h pool to_endpoint s rs"; cases "outcomes h pool to_endpoint s (rs @ rs')")
        (auto simp: Let_def map_sum_def split: sum.splits)
  next
    case False
    then show ?thesis
      using 2
      by (cases "npcap_handle_datagram h pool s t (u_bytes r) (to_endpoint (u_sender r)) (error_of_code GENERIC_ERROR)")
        (auto simp: Let_def map_sum_def split: sum.splits option.splits)
  qed
qed

text \<open>A user who makes one request at a time.\<close>

function npcap_receives ::
    "host \<Rightarrow> (nat \<Rightarrow> byte) \<Rightarrow> ('addr \<Rightarrow> 'ep) \<Rightarrow> 'ep \<Rightarrow> 'ep SocketNpcap \<Rightarrow> 'addr npcap_inbox \<Rightarrow>
     (OwningBuffer option \<times> 'ep option \<times> Error) list" where
  "npcap_receives h pool to_endpoint ne s rs =
     (case npcap_async_receive_from h pool to_endpoint s ne rs of
        Npcap_Returned b ep e s' rs' \<Rightarrow>
          (b, if b = None then None else Some ep, e) # npcap_receives h pool to_endpoint ne s' rs'
      | _ \<Rightarrow> [])"
  by pat_completeness auto
termination
  by (relation "measure (\<lambda>(h, pool, to_endpoint, ne, s, rs). length rs)") (auto dest: npcap_async_rest)

declare npcap_receives.simps [simp del]

lemma npcap_receives_Cons:
  "npcap_receives h pool to_endpoint ne s ((t, r) # rs) =
     (let error = toEcaludpError (u_error r)
      in if is_error error then (None, None, error) # npcap_receives h pool to_endpoint ne s rs
         else
           (case npcap_handle_datagram h pool s t (u_bytes r) (to_endpoint (u_sender r)) (error_of_code GENERIC_ERROR) of
              Inl f \<Rightarrow> []
            | Inr (Some b, e, s) \<Rightarrow> (Some b, Some (to_endpoint (u_sender r)), e) # npcap_receives h pool to_endpoint ne s rs
            | Inr (None, e, s) \<Rightarrow> npcap_receives h pool to_endpoint ne s rs))"
proof -
  have "npcap_receives h pool to_endpoint ne s' rs =
      (case npcap_receive_next_datagram_from h pool to_endpoint s' ne rs of
        Npcap_Returned b ep e s' rs' \<Rightarrow>
          (b, if b = None then None else Some ep, e) # npcap_receives h pool to_endpoint ne s' rs'
      | _ \<Rightarrow> [])" for s'
    by (subst npcap_receives.simps) (simp add: npcap_async_receive_from_def)
  then show ?thesis
    by (subst npcap_receives.simps)
      (auto simp: npcap_async_receive_from_def Let_def split: sum.split option.split)
qed

lemma npcap_receives_Nil: "npcap_receives h pool to_endpoint ne s [] = []"
  by (subst npcap_receives.simps) (simp add: npcap_async_receive_from_def)

lemma npcap_receives_outcomes:
  "outcomes h pool to_endpoint s rs = Inr (xs, s') \<Longrightarrow>
     npcap_receives h pool to_endpoint ne s (rs @ rs') = xs @ npcap_receives h pool to_endpoint ne s' rs'"
proof (induction h pool to_endpoint s rs arbitrary: xs rule: outcomes.induct)
  case (2 h pool to_endpoint s t r rs)
  show ?case
  proof (cases "is_error (toEcaludpError (u_error r))")
    case True
    with 2(1) [OF refl refl True] 2(4) show ?thesis
      by (cases "outcomes h pool to_endpoint s rs") (auto simp: npcap_receives_Cons Let_def)
  next
    case False
    with 2(4) obtain b e s1 where h: "npcap_handle_datagram h pool s t (u_bytes r) (to_endpoint (u_sender r))
        (error_of_code GENERIC_ERROR) = Inr (b, e, s1)"
      by (auto simp: Let_def split: sum.splits)
    show ?thesis
    proof (cases b)
      case None
      with 2(2) [OF refl refl False h] 2(4) False h show ?thesis by (simp add: npcap_receives_Cons Let_def)
    next
      case (Some buf)
      with 2(3) [OF refl refl False h] 2(4) False h show ?thesis
        by (cases "outcomes h pool to_endpoint s1 rs") (auto simp: npcap_receives_Cons Let_def)
    qed
  qed
qed simp

section \<open>The invariant\<close>

text \<open>
  Before a crash, the results so far have had the outcomes the handlers were called with, and every
  request was completed, or is being received for, or is in the queue, or was dropped by a closed socket.
  A crash comes from the last result.
\<close>

definition dropped :: "'k async_socket \<Rightarrow> 'k list" where
  "dropped s = map fst (filter (\<lambda>(r, x). x = None) (handled s))"

definition accounted :: "('ep, 'k, 'addr) request_system \<Rightarrow> bool" where
  "accounted sys \<longleftrightarrow>
     mset (user_calls sys) =
       mset (map fst (completed sys)) + mset (in_flight (wait_thread (request_thread sys))) +
       mset (parameters_queue (request_thread sys)) + mset (dropped (request_thread sys))"

definition request_inv ::
    "host \<Rightarrow> (nat \<Rightarrow> byte) \<Rightarrow> ('addr \<Rightarrow> 'ep) \<Rightarrow> 'ep SocketNpcap \<Rightarrow> ('ep, 'k, 'addr) request_system \<Rightarrow> bool" where
  "request_inv h pool to_endpoint s0 sys \<longleftrightarrow>
     (case crash sys of
        None \<Rightarrow> accounted sys \<and>
          outcomes h pool to_endpoint s0 (results sys) = Inr (map snd (completed sys), npcap_socket sys)
      | Some f \<Rightarrow> \<exists>rs r s.
          results sys = rs @ [r] \<and> outcomes h pool to_endpoint s0 rs = Inr (map snd (completed sys), s) \<and>
          outcomes h pool to_endpoint s [r] = Inl f)"

lemma take_accounted:
  assumes "take_request s = Some s'"
  shows "mset (in_flight (wait_thread s')) + mset (parameters_queue s') + mset (dropped s') =
    mset (in_flight (wait_thread s)) + mset (parameters_queue s) + mset (dropped s)"
  using assms
  by (cases "parameters_queue s") (auto simp: take_request_def dropped_def Let_def split: if_splits)

lemma result_inv:
  assumes inv: "request_inv h pool to_endpoint s0 sys" and "crash sys = None"
    and k: "wait_thread (request_thread sys) = Receiving k"
    and t: "call_handler u n (request_thread sys) = Some thread"
  shows "request_inv h pool to_endpoint s0
    (datagram_received h pool to_endpoint k t r (sys\<lparr>request_thread := thread, results := results sys @ [(t, r)]\<rparr>))"
proof -
  have o: "outcomes h pool to_endpoint s0 (results sys) = Inr (map snd (completed sys), npcap_socket sys)"
    and a: "accounted sys" using assms(1,2) by (simp_all add: request_inv_def)
  have thread: "thread = (request_thread sys)\<lparr>wait_thread := Waiting_For_Request,
      handled := handled (request_thread sys) @ [(k, Some (toEcaludpError u, n))]\<rparr>"
    using t k by (simp add: call_handler_def)
  show ?thesis
  proof (cases "is_error (toEcaludpError (u_error r))")
    case True
    then show ?thesis
      using o a k assms(2)
      by (simp add: datagram_received_def request_inv_def accounted_def dropped_def outcomes_append thread Let_def)
  next
    case False
    let ?h = "npcap_handle_datagram h pool (npcap_socket sys) t (u_bytes r) (to_endpoint (u_sender r))
      (error_of_code GENERIC_ERROR)"
    show ?thesis
    proof (cases ?h)
      case (Inl f)
      with False o show ?thesis by (auto simp: datagram_received_def request_inv_def Let_def)
    next
      case (Inr x)
      obtain b e s where x: "x = (b, e, s)" by (metis prod_cases3)
      from Inr x False o a k assms(2) show ?thesis
        by (cases b) (simp_all add: datagram_received_def request_inv_def accounted_def dropped_def outcomes_append
            thread Let_def request_datagram_def asyncReceiveFrom_def)
    qed
  qed
qed

lemma request_step_inv:
  assumes "request_inv h pool to_endpoint s0 sys" "crash sys = None"
  shows "request_inv h pool to_endpoint s0 (request_step h pool to_endpoint e sys)"
proof (cases e)
  case (User_Call k)
  with assms show ?thesis
    by (simp add: request_inv_def accounted_def call_async_receive_from_def request_datagram_def asyncReceiveFrom_def dropped_def)
next
  case Take_Request
  show ?thesis
  proof (cases "take_request (request_thread sys)")
    case (Some thread)
    from take_accounted [OF Some] assms Take_Request Some show ?thesis
      by (simp add: request_inv_def accounted_def add.assoc)
  qed (use assms Take_Request in simp)
next
  case (Result t r)
  with assms result_inv [OF assms] show ?thesis
    by (cases "wait_thread (request_thread sys)") (auto split: option.split)
next
  case Close_Call
  with assms show ?thesis by (simp add: request_inv_def accounted_def async_close_def dropped_def)
qed

lemma request_run_keeps:
  "request_inv h pool to_endpoint s sys \<Longrightarrow> request_inv h pool to_endpoint s (request_run h pool to_endpoint es sys)"
  unfolding request_run_def by (induction es arbitrary: sys) (simp_all add: request_step_inv)

lemma request_run_inv:
  "request_inv h pool to_endpoint s (request_run h pool to_endpoint es (bound_system s))"
  by (rule request_run_keeps) (simp add: bound_system_def request_inv_def accounted_def async_init_def dropped_def)

section \<open>Delivery to the handlers\<close>

text \<open>The handler of the other socket on the same datagrams.\<close>

lemma outcomes_socket_run:
  assumes "\<forall>(t, r) \<in> set rs. u_code (u_error r) = Udpcap_OK"
    and "socket_run h pool (as_socket s) (map (\<lambda>(t, r). (t, u_bytes r, to_endpoint (u_sender r))) rs) = Inr (xs, s')"
  shows "\<exists>ys s''. outcomes h pool to_endpoint s rs = Inr (ys, s'') \<and>
    map (\<lambda>(b, ep, e). (the ep, buffer_bytes (the b))) ys = delivered xs \<and>
    list_all (\<lambda>(b, ep, e). b \<noteq> None \<and> err_code e = OK) ys"
  using assms
proof (induction rs arbitrary: s xs)
  case (Cons x rs)
  obtain t r where x: "x = (t, r)" by (cases x)
  let ?ep = "to_endpoint (u_sender r)"
  obtain b e s1 where h: "npcap_handle_datagram h pool s t (u_bytes r) ?ep (error_of_code GENERIC_ERROR) = Inr (b, e, s1)"
    and sh: "socket_handler h pool (as_socket s) t (u_bytes r) ?ep = Inr (b, e, as_socket s1)"
    using Cons.prems(2) npcap_handler_eq [of h pool s t "u_bytes r" ?ep "error_of_code GENERIC_ERROR", symmetric]
    by (cases "npcap_handle_datagram h pool s t (u_bytes r) ?ep (error_of_code GENERIC_ERROR)")
      (auto simp: x socket_handler_def)
  obtain xs1 where r: "socket_run h pool (as_socket s1) (map (\<lambda>(t, r). (t, u_bytes r, to_endpoint (u_sender r))) rs) = Inr (xs1, s')"
    and xs: "xs = (?ep, b, e) # xs1"
    using Cons.prems(2) sh by (auto simp: x split: sum.splits)
  obtain ys s'' where ys: "outcomes h pool to_endpoint s1 rs = Inr (ys, s'')"
    "map (\<lambda>(b, ep, e). (the ep, buffer_bytes (the b))) ys = delivered xs1"
    "list_all (\<lambda>(b, ep, e). b \<noteq> None \<and> err_code e = OK) ys"
    using Cons.IH [OF _ r] Cons.prems(1) by auto
  have "\<not> is_error (toEcaludpError (u_error r))" using Cons.prems(1) x by simp
  with ys h xs npcap_handler_ok [of h pool s t "u_bytes r" ?ep "error_of_code GENERIC_ERROR"] x show ?case
    by (cases b) (auto simp: Let_def)
qed simp

lemma delivery_outcomes:
  assumes "\<forall>(ep, x) \<in> set sends. valid_sending x \<and> s_magic x = np_magic_header_bytes s"
    and "distinct (map (\<lambda>(ep, x). (ep, sent_id x)) (filter (\<lambda>(ep, x). fragmented x) sends))"
    and "mset (map (\<lambda>(t, r). (to_endpoint (u_sender r), u_bytes r)) rs) =
      mset (concat (map (\<lambda>(ep, x). map (Pair ep) (sent_datagrams x)) sends))"
    and "\<forall>(t, r) \<in> set rs. u_code (u_error r) = Udpcap_OK"
    and "np_reassembly_v5 s = Map.empty"
    and "\<forall>(t, r) \<in> set rs. \<forall>(t', r') \<in> set rs. clean_time t - access_time t' \<le> np_max_reassembly_age s"
  shows "\<exists>ys s'. outcomes h pool to_endpoint s rs = Inr (ys, s') \<and>
    mset (map (\<lambda>(b, ep, e). (the ep, buffer_bytes (the b))) ys) = mset (map (\<lambda>(ep, x). (ep, sent_message x)) sends) \<and>
    list_all (\<lambda>(b, ep, e). b \<noteq> None \<and> err_code e = OK) ys"
proof -
  let ?ds = "map (\<lambda>(t, r). (t, u_bytes r, to_endpoint (u_sender r))) rs"
  have "\<exists>xs s'. socket_run h pool (as_socket s) ?ds = Inr (xs, s') \<and> list_all (\<lambda>(ep, b, e). pred_option valid_buffer b) xs \<and>
    mset (delivered xs) = mset (map (\<lambda>(ep, x). (ep, sent_message x)) sends)"
    by (rule delivery_run) (use assms in \<open>auto simp: comp_def case_prod_unfold\<close>)
  then obtain xs s' where xs: "socket_run h pool (as_socket s) ?ds = Inr (xs, s')"
    "mset (delivered xs) = mset (map (\<lambda>(ep, x). (ep, sent_message x)) sends)" by blast
  from outcomes_socket_run [OF assms(4) xs(1)] obtain ys s'' where
    ys: "outcomes h pool to_endpoint s rs = Inr (ys, s'')"
      "map (\<lambda>(b, ep, e). (the ep, buffer_bytes (the b))) ys = delivered xs"
      "list_all (\<lambda>(b, ep, e). b \<noteq> None \<and> err_code e = OK) ys" by blast
  have "mset (map (\<lambda>(b, ep, e). (the ep, buffer_bytes (the b))) ys) = mset (map (\<lambda>(ep, x). (ep, sent_message x)) sends)"
    unfolding ys(2) by (rule xs(2))
  with ys(1,3) show ?thesis by blast
qed

lemma request_inv_receives:
  assumes "request_inv h pool to_endpoint s sys"
  shows "map snd (completed sys) = npcap_receives h pool to_endpoint ne s (results sys) \<and>
    (case crash sys of
       None \<Rightarrow> mset (user_calls sys) =
         mset (map fst (completed sys)) + mset (in_flight (wait_thread (request_thread sys))) +
         mset (parameters_queue (request_thread sys)) + mset (dropped (request_thread sys))
     | Some f \<Rightarrow> outcomes h pool to_endpoint s (results sys) = Inl f)"
proof (cases "crash sys")
  case None
  with assms have "outcomes h pool to_endpoint s (results sys) = Inr (map snd (completed sys), npcap_socket sys)"
    "accounted sys" by (simp_all add: request_inv_def)
  with npcap_receives_outcomes [OF this(1), of ne "[]"] None show ?thesis
    by (simp add: accounted_def npcap_receives_Nil)
next
  case (Some f)
  with assms obtain rs r s1 where
    r: "results sys = rs @ [r]" "outcomes h pool to_endpoint s rs = Inr (map snd (completed sys), s1)"
      "outcomes h pool to_endpoint s1 [r] = Inl f"
    by (auto simp: request_inv_def)
  obtain t u where "r = (t, u)" by (cases r)
  with r(3) have "npcap_receives h pool to_endpoint ne s1 [r] = []"
    by (auto simp: npcap_receives_Cons npcap_receives_Nil Let_def split: if_splits sum.splits option.splits)
  with r npcap_receives_outcomes [OF r(2), of ne "[r]"] Some show ?thesis by (simp add: outcomes_append)
qed



text \<open>With enough requests in the queue of an open socket, all datagrams are received.\<close>

abbreviation arriving :: "'addr npcap_inbox \<Rightarrow> ('k, 'addr) request_event list" where
  "arriving rs \<equiv> concat (map (\<lambda>(t, r). [Take_Request, Result t r]) rs)"

lemma request_run_append:
  "request_run h pool to_endpoint (es @ es') sys =
     request_run h pool to_endpoint es' (request_run h pool to_endpoint es sys)"
  by (simp add: request_run_def)

lemma arriving_served:
  assumes "outcomes h pool to_endpoint (npcap_socket sys) rs = Inr (ys, s')" "crash sys = None"
    and "wait_thread (request_thread sys) = Waiting_For_Request" "\<not> is_closed (request_thread sys)"
    and "length rs \<le> length (parameters_queue (request_thread sys))"
  shows "results (request_run h pool to_endpoint (arriving rs) sys) = results sys @ rs"
  using assms
proof (induction rs arbitrary: sys ys)
  case (Cons x rs)
  obtain t r where x: "x = (t, r)" by (cases x)
  obtain k q where q: "parameters_queue (request_thread sys) = k # q"
    using Cons.prems(5) by (cases "parameters_queue (request_thread sys)") auto
  let ?thread = "(request_thread sys)\<lparr>parameters_queue := q, wait_thread := Waiting_For_Request,
    handled := handled (request_thread sys) @ [(k, Some (toEcaludpError (u_error r), length (u_bytes r)))]\<rparr>"
  let ?sys = "datagram_received h pool to_endpoint k t r
    (sys\<lparr>request_thread := ?thread, results := results sys @ [(t, r)]\<rparr>)"
  have run: "request_run h pool to_endpoint (arriving (x # rs)) sys = request_run h pool to_endpoint (arriving rs) ?sys"
    using Cons.prems(2-4) q by (simp add: request_run_def x take_open call_handler_def)
  have "\<exists>ys. outcomes h pool to_endpoint (npcap_socket ?sys) rs = Inr (ys, s') \<and> crash ?sys = None \<and>
      wait_thread (request_thread ?sys) = Waiting_For_Request \<and> \<not> is_closed (request_thread ?sys) \<and>
      length q \<le> length (parameters_queue (request_thread ?sys)) \<and> results ?sys = results sys @ [(t, r)]"
  proof (cases "is_error (toEcaludpError (u_error r))")
    case True
    with Cons.prems x show ?thesis
      by (cases "outcomes h pool to_endpoint (npcap_socket sys) rs") (auto simp: datagram_received_def Let_def)
  next
    case False
    with Cons.prems(1) obtain b e s1 where h: "npcap_handle_datagram h pool (npcap_socket sys) t (u_bytes r)
        (to_endpoint (u_sender r)) (error_of_code GENERIC_ERROR) = Inr (b, e, s1)"
      by (auto simp: x Let_def split: sum.splits)
    with False Cons.prems x show ?thesis
      by (cases b; cases "outcomes h pool to_endpoint s1 rs")
        (auto simp: datagram_received_def request_datagram_def asyncReceiveFrom_def Let_def)
  qed
  then obtain ys' where i: "outcomes h pool to_endpoint (npcap_socket ?sys) rs = Inr (ys', s')" "crash ?sys = None"
    "wait_thread (request_thread ?sys) = Waiting_For_Request" "\<not> is_closed (request_thread ?sys)"
    "length q \<le> length (parameters_queue (request_thread ?sys))" "results ?sys = results sys @ [(t, r)]"
    by blast
  from i(5) Cons.prems(5) q have "length rs \<le> length (parameters_queue (request_thread ?sys))" by simp
  from Cons.IH [OF i(1-4) this] i(6) show ?case unfolding run by (simp add: x)
qed (simp add: request_run_def)

lemma datagram_received_calls: "user_calls (datagram_received h pool to_endpoint k t r sys) = user_calls sys"
  by (simp add: datagram_received_def request_datagram_def Let_def split: sum.split option.split)

lemma step_calls:
  "user_calls (request_step h pool to_endpoint Take_Request sys) = user_calls sys"
  "user_calls (request_step h pool to_endpoint (Result t r) sys) = user_calls sys"
  by (simp_all add: datagram_received_calls split: option.split wait_thread.split)

lemma arriving_calls: "user_calls (request_run h pool to_endpoint (arriving rs) sys) = user_calls sys"
  unfolding request_run_def
  by (induction rs arbitrary: sys) (auto simp: step_calls simp del: request_step.simps)

lemma calls_queued:
  "request_run h pool to_endpoint (map User_Call ks) (bound_system s) =
     (bound_system s)\<lparr>user_calls := ks, request_thread :=
       (async_init\<lparr>wait_thread := Waiting_For_Request\<rparr>)\<lparr>parameters_queue := ks, requests := ks\<rparr>\<rparr>"
  by (induction ks rule: rev_induct)
    (simp_all add: request_run_def bound_system_def async_init_def call_async_receive_from_def request_datagram_def
      asyncReceiveFrom_def)


section \<open>Witnesses\<close>

text \<open>A message in three datagrams, received in reverse order with three requests in the queue.\<close>

abbreviation demo_result :: "byte list \<Rightarrow> string udpcap_result" where
  "demo_result d \<equiv>
     \<lparr>u_error = \<lparr>u_code = Udpcap_OK, u_message = [], u_string = []\<rparr>, u_bytes = d, u_sender = ''sender''\<rparr>"



end
