(* ===== verification/Perftool_Loops.thy ===== *)
theory Perftool_Loops
  imports Perftool_Sockets
begin

text \<open>
  The senders and receivers of the performance tool (src/samples/ecaludp_perftool/src/sender.cpp,
  sender_sync.cpp, sender_async.cpp, receiver.cpp, receiver_sync.cpp, receiver_async.cpp and the two
  npcap receivers): their counters, the thread that reports them, and the loops that send and receive
  through the sockets of \<open>Socket\<close> and \<open>Socket_Npcap\<close>. The blocks under the mutex are atomic, and
  what happens between them is interleaved by an explicit list of events.
\<close>

section \<open>The counters\<close>

record Sender =
  is_stopped :: bool
  bytes_raw :: int
  bytes_payload :: int
  messages_sent :: int

record Receiver =
  rcv_is_stopped :: bool
  rcv_bytes_payload :: int
  messages_received :: int

definition new_sender :: Sender where
  "new_sender = \<lparr>is_stopped = False, bytes_raw = 0, bytes_payload = 0, messages_sent = 0\<rparr>"

definition new_receiver :: Receiver where
  "new_receiver = \<lparr>rcv_is_stopped = False, rcv_bytes_payload = 0, messages_received = 0\<rparr>"

text \<open>What the destructors do before they join the reporting thread.\<close>

definition stop_sender :: "Sender \<Rightarrow> Sender" where
  "stop_sender s = s\<lparr>is_stopped := True\<rparr>"

definition stop_receiver :: "Receiver \<Rightarrow> Receiver" where
  "stop_receiver s = s\<lparr>rcv_is_stopped := True\<rparr>"

text \<open>
  One round of \<^verbatim>\<open>print_statistics\<close>: the numbers swapped out, messages first, or
  nothing when the thread ends.
\<close>

definition report_sender :: "Sender \<Rightarrow> (int \<times> int) option \<times> Sender" where
  "report_sender s =
     (if is_stopped s then (None, s)
      else (Some (messages_sent s, bytes_payload s), s\<lparr>bytes_raw := 0, bytes_payload := 0, messages_sent := 0\<rparr>))"

definition report_receiver :: "Receiver \<Rightarrow> (int \<times> int) option \<times> Receiver" where
  "report_receiver s =
     (if rcv_is_stopped s then (None, s)
      else (Some (messages_received s, rcv_bytes_payload s), s\<lparr>rcv_bytes_payload := 0, messages_received := 0\<rparr>))"

text \<open>The line printed; \<open>frequency\<close> is the text of the messages per second with one decimal.\<close>

definition sender_line :: "int \<Rightarrow> int \<Rightarrow> string \<Rightarrow> string" where
  "sender_line messages payload frequency =
     ''cnt: '' @ to_string_int messages @ '' | '' @ ''snt pyld: '' @ to_string_int payload @ '' | '' @
     ''freq: '' @ frequency @ newline"

definition receiver_line :: "int \<Rightarrow> int \<Rightarrow> string \<Rightarrow> string" where
  "receiver_line messages payload frequency =
     ''cnt: '' @ to_string_int messages @ '' | '' @ ''rcv pyld: '' @ to_string_int payload @ '' | '' @
     ''freq: '' @ frequency @ newline"

section \<open>Loops with a reporting thread\<close>

text \<open>
  What a call of the network comes back with; \<open>Blocked\<close> while it has not come back.
\<close>

datatype ('r, 'e) call_result = Blocked | Call_Fault fault | Call_Error 'e | Call_Done 'r

text \<open>
  The thread of the loop is before or inside its call, has the result of a successful call and is about
  to lock the mutex, has left the loop (with the error, or as it was stopped), or has crashed.
\<close>

datatype ('r, 'e) loop_thread = At_Call | At_Lock 'r | Left_Loop "'e option" | Crashed fault

text \<open>
  \<open>done_calls\<close> records the results of the successful calls, \<open>printed\<close> the numbers reported.
\<close>

record ('s, 'w, 'r, 'e) loop_system =
  object :: 's
  network :: 'w
  loop_thread :: "('r, 'e) loop_thread"
  reporting :: bool
  printed :: "(int \<times> int) list"
  done_calls :: "'r list"

definition start_loop :: "'s \<Rightarrow> 'w \<Rightarrow> ('s, 'w, 'r, 'e) loop_system" where
  "start_loop s w =
     \<lparr>object = s, network = w, loop_thread = At_Call, reporting = True, printed = [], done_calls = []\<rparr>"

datatype 'i loop_event = Call 'i | Lock | Report | Stop

fun loop_step ::
    "('i \<Rightarrow> 'w \<Rightarrow> ('r, 'e) call_result \<times> 'w) \<Rightarrow> ('r \<Rightarrow> 's \<Rightarrow> fault + 's option) \<Rightarrow>
     ('s \<Rightarrow> (int \<times> int) option \<times> 's) \<Rightarrow> ('s \<Rightarrow> 's) \<Rightarrow> 'i loop_event \<Rightarrow>
     ('s, 'w, 'r, 'e) loop_system \<Rightarrow> ('s, 'w, 'r, 'e) loop_system" where
  "loop_step call locked report stop (Call i) sys =
     (case loop_thread sys of
        At_Call \<Rightarrow>
          (let (result, w) = call i (network sys);
               sys = sys\<lparr>network := w\<rparr>
           in (case result of
                 Blocked \<Rightarrow> sys
               | Call_Fault f \<Rightarrow> sys\<lparr>loop_thread := Crashed f\<rparr>
               | Call_Error e \<Rightarrow> sys\<lparr>loop_thread := Left_Loop (Some e)\<rparr>
               | Call_Done r \<Rightarrow> sys\<lparr>loop_thread := At_Lock r, done_calls := done_calls sys @ [r]\<rparr>))
      | _ \<Rightarrow> sys)"
| "loop_step call locked report stop Lock sys =
     (case loop_thread sys of
        At_Lock r \<Rightarrow>
          (case locked r (object sys) of
             Inl f \<Rightarrow> sys\<lparr>loop_thread := Crashed f\<rparr>
           | Inr None \<Rightarrow> sys\<lparr>loop_thread := Left_Loop None\<rparr>
           | Inr (Some s) \<Rightarrow> sys\<lparr>object := s, loop_thread := At_Call\<rparr>)
      | _ \<Rightarrow> sys)"
| "loop_step call locked report stop Report sys =
     (if \<not> reporting sys then sys
      else
        (case report (object sys) of
           (None, s) \<Rightarrow> sys\<lparr>object := s, reporting := False\<rparr>
         | (Some line, s) \<Rightarrow> sys\<lparr>object := s, printed := printed sys @ [line]\<rparr>))"
| "loop_step call locked report stop Stop sys = sys\<lparr>object := stop (object sys)\<rparr>"

definition loop_run ::
    "('i \<Rightarrow> 'w \<Rightarrow> ('r, 'e) call_result \<times> 'w) \<Rightarrow> ('r \<Rightarrow> 's \<Rightarrow> fault + 's option) \<Rightarrow>
     ('s \<Rightarrow> (int \<times> int) option \<times> 's) \<Rightarrow> ('s \<Rightarrow> 's) \<Rightarrow> 'i loop_event list \<Rightarrow>
     ('s, 'w, 'r, 'e) loop_system \<Rightarrow> ('s, 'w, 'r, 'e) loop_system" where
  "loop_run call locked report stop es sys = fold (loop_step call locked report stop) es sys"

section \<open>The synchronous sender\<close>

text \<open>
  \<^verbatim>\<open>send_loop\<close>: creating the socket and the message, one call of \<^verbatim>\<open>send_to\<close>, and the
  block under the mutex. The result of a call is the number of bytes sent and the datagrams handed over.
\<close>

definition send_loop_start ::
    "('addr, 'os) asio \<Rightarrow> SenderParameters \<Rightarrow> 'os \<Rightarrow> (string + 'ep Socket \<times> byte list) \<times> 'os" where
  "send_loop_start asio p os =
     (case CreateSendSocket asio p os of
        (Inl e, os) \<Rightarrow> (Inl (''Error creating socket: '' @ e @ newline), os)
      | (Inr socket, os) \<Rightarrow> (Inr (socket, replicate (s_message_size p) 97), os))"

definition send_loop_call ::
    "host \<Rightarrow> memory \<Rightarrow> 'ep Socket \<Rightarrow> const_buffer list \<Rightarrow> (nat \<Rightarrow> nat \<times> 'ec option) \<times> int \<Rightarrow> id_state \<Rightarrow>
     (nat \<times> byte list list, 'ec) call_result \<times> id_state" where
  "send_loop_call h mem socket message i ids =
     (let (answer, clock) = i
      in (case send_to h mem socket message answer None clock ids of
            None \<Rightarrow> (Blocked, ids)
          | Some (Inl f) \<Rightarrow> (Call_Fault f, ids)
          | Some (Inr ((bytes_sent, ec, wire), ids)) \<Rightarrow>
              (case ec of Some e \<Rightarrow> (Call_Error e, ids) | None \<Rightarrow> (Call_Done (bytes_sent, wire), ids))))"

definition send_loop_locked :: "nat \<Rightarrow> nat \<times> byte list list \<Rightarrow> Sender \<Rightarrow> fault + Sender option" where
  "send_loop_locked message_size r s =
     (if is_stopped s then Inr None
      else Inr (Some (s\<lparr>bytes_raw := bytes_raw s + int (fst r), bytes_payload := bytes_payload s + int message_size,
                        messages_sent := messages_sent s + 1\<rparr>)))"

section \<open>The synchronous receivers\<close>

text \<open>The network is the socket, the sender's endpoint, and what asio has received; more may arrive.\<close>

definition receive_loop_call ::
    "host \<Rightarrow> (nat \<Rightarrow> byte) \<Rightarrow> 'ep \<Rightarrow> ('ep, 'ec) inbox \<Rightarrow> 'ep Socket \<times> 'ep \<times> ('ep, 'ec) inbox \<Rightarrow>
     (OwningBuffer option, 'ec) call_result \<times> 'ep Socket \<times> 'ep \<times> ('ep, 'ec) inbox" where
  "receive_loop_call h pool no_endpoint arriving w =
     (let (socket, destination, rs) = w
      in (case receive_from h pool no_endpoint socket destination (rs @ arriving) of
            Waiting socket \<Rightarrow> (Blocked, socket, destination, [])
          | Failed f \<Rightarrow> (Call_Fault f, socket, destination, rs)
          | Returned payload_buffer destination (Some ec) socket rs \<Rightarrow> (Call_Error ec, socket, destination, rs)
          | Returned payload_buffer destination None socket rs \<Rightarrow>
              (Call_Done payload_buffer, socket, destination, rs)))"

definition npcap_receive_loop_call ::
    "host \<Rightarrow> (nat \<Rightarrow> byte) \<Rightarrow> ('addr \<Rightarrow> 'ep) \<Rightarrow> 'addr npcap_inbox \<Rightarrow> 'ep SocketNpcap \<times> 'ep \<times> 'addr npcap_inbox \<Rightarrow>
     (OwningBuffer option, Error) call_result \<times> 'ep SocketNpcap \<times> 'ep \<times> 'addr npcap_inbox" where
  "npcap_receive_loop_call h pool to_endpoint arriving w =
     (let (socket, destination, rs) = w
      in (case npcap_receive_from h pool to_endpoint socket destination (rs @ arriving) of
            Npcap_Waiting socket \<Rightarrow> (Blocked, socket, destination, [])
          | Npcap_Failed f \<Rightarrow> (Call_Fault f, socket, destination, rs)
          | Npcap_Returned payload_buffer destination error socket rs \<Rightarrow>
              (if is_error error then Call_Error error else Call_Done payload_buffer, socket, destination, rs)))"

text \<open>The block under the mutex, which is written out in both loops.\<close>

definition receive_loop_locked :: "OwningBuffer option \<Rightarrow> Receiver \<Rightarrow> fault + Receiver option" where
  "receive_loop_locked payload_buffer s =
     (if rcv_is_stopped s then Inr None
      else
        (case payload_buffer of
           None \<Rightarrow> Inl Null_Dereference
         | Some b \<Rightarrow> Inr (Some (s\<lparr>rcv_bytes_payload := rcv_bytes_payload s + int (buffer_size b),
                               messages_received := messages_received s + 1\<rparr>))))"

definition npcap_receive_loop_locked :: "OwningBuffer option \<Rightarrow> Receiver \<Rightarrow> fault + Receiver option" where
  "npcap_receive_loop_locked payload_buffer s =
     (if rcv_is_stopped s then Inr None
      else
        (case payload_buffer of
           None \<Rightarrow> Inl Null_Dereference
         | Some b \<Rightarrow> Inr (Some (s\<lparr>rcv_bytes_payload := rcv_bytes_payload s + int (buffer_size b),
                               messages_received := messages_received s + 1\<rparr>))))"

lemma npcap_receive_loop_locked_eq: "npcap_receive_loop_locked = receive_loop_locked"
  by (simp add: fun_eq_iff npcap_receive_loop_locked_def receive_loop_locked_def)

section \<open>The asynchronous senders and receivers as loops\<close>

text \<open>
  The thread of the io_context (for udpcap: the wait thread of the socket) calls the completion
  handlers one after the other, each starting the next operation at its end. A call of this loop is
  one operation, from its start to its completion; the handler closes the socket on an error and else
  counts under the mutex, without looking whether the object is stopped. A sender gets the error
  codes asio completes the sends of the datagrams with.
\<close>

definition completion :: "'ec send_action list \<Rightarrow> 'ec option option" where
  "completion actions = (case last actions of Completion_Handler ec \<Rightarrow> Some ec | Send d \<Rightarrow> None)"

definition send_message_call ::
    "host \<Rightarrow> memory \<Rightarrow> 'ep Socket \<Rightarrow> const_buffer list \<Rightarrow> 'ec option list \<times> int \<Rightarrow> id_state \<Rightarrow>
     ('ec send_action list, 'ec) call_result \<times> id_state" where
  "send_message_call h mem socket message i ids =
     (let (ecs, clock) = i
      in (case async_send_to h mem socket message ecs clock ids of
            None \<Rightarrow> (Blocked, ids)
          | Some (Inl f) \<Rightarrow> (Call_Fault f, ids)
          | Some (Inr (actions, ids)) \<Rightarrow>
              (case completion actions of
                 None \<Rightarrow> (Blocked, ids)
               | Some (Some e) \<Rightarrow> (Call_Error e, ids)
               | Some None \<Rightarrow> (Call_Done actions, ids))))"

definition send_message_locked :: "nat \<Rightarrow> 'ec send_action list \<Rightarrow> Sender \<Rightarrow> fault + Sender option" where
  "send_message_locked message_size r s =
     Inr (Some (s\<lparr>bytes_payload := bytes_payload s + int message_size, messages_sent := messages_sent s + 1\<rparr>))"

definition receive_message_call ::
    "host \<Rightarrow> (nat \<Rightarrow> byte) \<Rightarrow> 'ep \<Rightarrow> ('ep, 'ec) inbox \<Rightarrow> 'ep Socket \<times> ('ep, 'ec) inbox \<Rightarrow>
     (OwningBuffer option, 'ec) call_result \<times> 'ep Socket \<times> ('ep, 'ec) inbox" where
  "receive_message_call h pool new_endpoint arriving w =
     (let (socket, rs) = w
      in (case async_receive_from h pool socket new_endpoint (rs @ arriving) of
            Waiting socket \<Rightarrow> (Blocked, socket, [])
          | Failed f \<Rightarrow> (Call_Fault f, socket, rs)
          | Returned message ep (Some ec) socket rs \<Rightarrow> (Call_Error ec, socket, rs)
          | Returned message ep None socket rs \<Rightarrow> (Call_Done message, socket, rs)))"

definition npcap_receive_message_call ::
    "host \<Rightarrow> (nat \<Rightarrow> byte) \<Rightarrow> ('addr \<Rightarrow> 'ep) \<Rightarrow> 'ep \<Rightarrow> 'addr npcap_inbox \<Rightarrow> 'ep SocketNpcap \<times> 'addr npcap_inbox \<Rightarrow>
     (OwningBuffer option, Error) call_result \<times> 'ep SocketNpcap \<times> 'addr npcap_inbox" where
  "npcap_receive_message_call h pool to_endpoint new_endpoint arriving w =
     (let (socket, rs) = w
      in (case npcap_async_receive_from h pool to_endpoint socket new_endpoint (rs @ arriving) of
            Npcap_Waiting socket \<Rightarrow> (Blocked, socket, [])
          | Npcap_Failed f \<Rightarrow> (Call_Fault f, socket, rs)
          | Npcap_Returned message ep error socket rs \<Rightarrow>
              (if is_error error then Call_Error error else Call_Done message, socket, rs)))"

definition receive_message_locked :: "OwningBuffer option \<Rightarrow> Receiver \<Rightarrow> fault + Receiver option" where
  "receive_message_locked message s =
     (case message of
        None \<Rightarrow> Inl Null_Dereference
      | Some b \<Rightarrow> Inr (Some (s\<lparr>rcv_bytes_payload := rcv_bytes_payload s + int (buffer_size b),
                            messages_received := messages_received s + 1\<rparr>)))"

section \<open>Every message is counted once\<close>

text \<open>The number of calls a loop in this state has not counted yet, or never will.\<close>

fun calls_left :: "('r, 'e) loop_thread \<Rightarrow> nat \<Rightarrow> bool \<Rightarrow> bool" where
  "calls_left At_Call k st \<longleftrightarrow> k = 0"
| "calls_left (At_Lock r) k st \<longleftrightarrow> k = 1"
| "calls_left (Left_Loop (Some e)) k st \<longleftrightarrow> k = 0"
| "calls_left (Left_Loop None) k st \<longleftrightarrow> k = 1 \<and> st"
| "calls_left (Crashed f) k st \<longleftrightarrow> k \<le> 1"

text \<open>
  What the loops rely on: the block under the mutex either adds one message of the size of the result,
  or ends the loop because the object is stopped; a report hands out the counters and resets them,
  or ends the thread of a stopped object; and nothing starts a stopped object again.
\<close>

locale counted_loop =
  fixes locked :: "'r \<Rightarrow> 's \<Rightarrow> fault + 's option"
    and report :: "'s \<Rightarrow> (int \<times> int) option \<times> 's"
    and stop :: "'s \<Rightarrow> 's"
    and stopped :: "'s \<Rightarrow> bool"
    and messages :: "'s \<Rightarrow> int"
    and payload :: "'s \<Rightarrow> int"
    and size_of :: "'r \<Rightarrow> nat"
  assumes locked_counts: "locked r s = Inr (Some s') \<Longrightarrow>
      stopped s' = stopped s \<and> messages s' = messages s + 1 \<and> payload s' = payload s + int (size_of r)"
    and locked_ends: "locked r s = Inr None \<Longrightarrow> stopped s"
    and report_some: "report s = (Some (m, p), s') \<Longrightarrow>
      m = messages s \<and> p = payload s \<and> messages s' = 0 \<and> payload s' = 0 \<and> stopped s' = stopped s"
    and report_none: "report s = (None, s') \<Longrightarrow> stopped s \<and> s' = s"
    and report_ends: "stopped s \<Longrightarrow> fst (report s) = None"
    and stop_counts: "stopped (stop s) \<and> messages (stop s) = messages s \<and> payload (stop s) = payload s"
begin

text \<open>The calls that are not counted: the one about to be, or the last one of a loop that was stopped.\<close>

definition uncounted :: "('s, 'w, 'r, 'e) loop_system \<Rightarrow> 'r list \<Rightarrow> bool" where
  "uncounted sys rest \<longleftrightarrow>
     (case loop_thread sys of
        At_Call \<Rightarrow> rest = []
      | At_Lock r \<Rightarrow> rest = [r]
      | Left_Loop (Some e) \<Rightarrow> rest = []
      | Left_Loop None \<Rightarrow> length rest = 1 \<and> stopped (object sys)
      | Crashed f \<Rightarrow> length rest \<le> 1)"

lemma uncounted_calls_left:
  "uncounted sys rest \<Longrightarrow> calls_left (loop_thread sys) (length rest) (stopped (object sys))"
  by (auto simp: uncounted_def split: loop_thread.splits option.splits)

definition accounted :: "('s, 'w, 'r, 'e) loop_system \<Rightarrow> bool" where
  "accounted sys \<longleftrightarrow>
     (\<exists>counted rest. done_calls sys = counted @ rest \<and> uncounted sys rest \<and>
        sum_list (map fst (printed sys)) + messages (object sys) = int (length counted) \<and>
        sum_list (map snd (printed sys)) + payload (object sys) = int (sum_list (map size_of counted)))"

lemma accountedI:
  "done_calls sys = counted @ rest \<Longrightarrow> uncounted sys rest \<Longrightarrow>
     sum_list (map fst (printed sys)) + messages (object sys) = int (length counted) \<Longrightarrow>
     sum_list (map snd (printed sys)) + payload (object sys) = int (sum_list (map size_of counted)) \<Longrightarrow>
     accounted sys"
  by (auto simp: accounted_def)

lemma uncounted_mono:
  "uncounted sys rest \<Longrightarrow> loop_thread sys' = loop_thread sys \<Longrightarrow>
     (stopped (object sys) \<Longrightarrow> stopped (object sys')) \<Longrightarrow> uncounted sys' rest"
  by (auto simp: uncounted_def split: loop_thread.splits option.splits)

lemma step_accounted:
  assumes "accounted sys"
  shows "accounted (loop_step call locked report stop ev sys)"
proof -
  from assms obtain counted rest where a: "done_calls sys = counted @ rest" "uncounted sys rest"
    "sum_list (map fst (printed sys)) + messages (object sys) = int (length counted)"
    "sum_list (map snd (printed sys)) + payload (object sys) = int (sum_list (map size_of counted))"
    by (auto simp: accounted_def)
  show ?thesis
  proof (cases ev)
    case (Call i)
    obtain result w where c: "call i (network sys) = (result, w)" by (cases "call i (network sys)")
    show ?thesis
    proof (cases "loop_thread sys")
      case At_Call
      then have "rest = []" using a(2) by (simp add: uncounted_def)
      then show ?thesis
        using a At_Call
        by (cases result)
          (auto intro!: accountedI [where counted = counted] simp: Call c Let_def uncounted_def)
    qed (use assms in \<open>simp_all add: Call\<close>)
  next
    case Lock
    show ?thesis
    proof (cases "loop_thread sys")
      case (At_Lock r)
      then have rest: "rest = [r]" using a(2) by (simp add: uncounted_def)
      show ?thesis
      proof (cases "locked r (object sys)")
        case (Inl f)
        with a At_Lock rest show ?thesis
          by (auto intro!: accountedI [where counted = counted] simp: Lock uncounted_def)
      next
        case (Inr res)
        show ?thesis
        proof (cases res)
          case None
          with a At_Lock rest Inr locked_ends [of r "object sys"] show ?thesis
            by (auto intro!: accountedI [where counted = counted] simp: Lock uncounted_def)
        next
          case (Some s)
          with a At_Lock rest Inr locked_counts [of r "object sys" s] show ?thesis
            by (auto intro!: accountedI [where counted = "counted @ [r]" and rest = "[]"]
                simp: Lock uncounted_def)
        qed
      qed
    qed (use assms in \<open>simp_all add: Lock\<close>)
  next
    case Report
    obtain line s where r: "report (object sys) = (line, s)" by (cases "report (object sys)")
    show ?thesis
    proof (cases line)
      case None
      then have "object sys = s" using r report_none [of "object sys" s] by simp
      with None r a show ?thesis
        by (auto intro!: accountedI [where counted = counted and rest = rest] uncounted_mono [OF a(2)]
            simp: Report)
    next
      case (Some mp)
      obtain m p where mp: "mp = (m, p)" by (cases mp)
      note s = report_some [OF r [unfolded Some mp]]
      show ?thesis
      proof (cases "reporting sys")
        case True
        show ?thesis
          by (rule accountedI [where counted = counted and rest = rest])
            (use True a s r Some mp in \<open>auto intro: uncounted_mono [OF a(2)] simp: Report\<close>)
      qed (use assms in \<open>simp add: Report\<close>)
    qed
  next
    case Stop
    show ?thesis
      by (rule accountedI [where counted = counted and rest = rest])
        (use a stop_counts [of "object sys"] in \<open>auto intro: uncounted_mono [OF a(2)] simp: Stop\<close>)
  qed
qed

lemma start_accounted: "messages s = 0 \<Longrightarrow> payload s = 0 \<Longrightarrow> accounted (start_loop s w)"
  by (rule accountedI [where counted = "[]" and rest = "[]"]) (simp_all add: start_loop_def uncounted_def)

lemma fold_accounted: "accounted sys \<Longrightarrow> accounted (fold (loop_step call locked report stop) es sys)"
  by (induction es arbitrary: sys) (simp_all add: step_accounted)

lemma run_accounted:
  "messages s = 0 \<Longrightarrow> payload s = 0 \<Longrightarrow> accounted (loop_run call locked report stop es (start_loop s w))"
  unfolding loop_run_def by (intro fold_accounted start_accounted)

end

section \<open>The statistics of the loops\<close>

interpretation sender: counted_loop "send_loop_locked n" report_sender stop_sender is_stopped messages_sent
    bytes_payload "\<lambda>_. n"
  for n
  by unfold_locales
    (auto simp: send_loop_locked_def report_sender_def stop_sender_def split: if_splits)

interpretation receiver: counted_loop receive_loop_locked report_receiver stop_receiver rcv_is_stopped
    messages_received rcv_bytes_payload "\<lambda>b. case b of None \<Rightarrow> 0 | Some b \<Rightarrow> buffer_size b"
  by unfold_locales
    (auto simp: receive_loop_locked_def report_receiver_def stop_receiver_def split: if_splits option.splits)

interpretation async_sender: counted_loop "send_message_locked n" report_sender stop_sender is_stopped
    messages_sent bytes_payload "\<lambda>_. n"
  for n
  by unfold_locales
    (auto simp: send_message_locked_def report_sender_def stop_sender_def split: if_splits)

interpretation async_receiver: counted_loop receive_message_locked report_receiver stop_receiver rcv_is_stopped
    messages_received rcv_bytes_payload "\<lambda>b. case b of None \<Rightarrow> 0 | Some b \<Rightarrow> buffer_size b"
  by unfold_locales
    (auto simp: receive_message_locked_def report_receiver_def stop_receiver_def split: if_splits option.splits)

definition counts_sent :: "nat \<Rightarrow> (Sender, 'w, 'r, 'e) loop_system \<Rightarrow> bool" where
  "counts_sent n sys \<longleftrightarrow>
     (\<exists>k. calls_left (loop_thread sys) k (is_stopped (object sys)) \<and> k \<le> length (done_calls sys) \<and>
        sum_list (map fst (printed sys)) + messages_sent (object sys) = int (length (done_calls sys) - k) \<and>
        sum_list (map snd (printed sys)) + bytes_payload (object sys) = int (n * (length (done_calls sys) - k)))"

lemma counts_sentI:
  assumes "done_calls sys = counted @ rest" "calls_left (loop_thread sys) (length rest) (is_stopped (object sys))"
    and "sum_list (map fst (printed sys)) + messages_sent (object sys) = int (length counted)"
    and "sum_list (map snd (printed sys)) + bytes_payload (object sys) = int (sum_list (map (\<lambda>_. n) counted))"
  shows "counts_sent n sys"
  using assms unfolding counts_sent_def
  by (intro exI [of _ "length rest"]) (simp add: sum_list_triv mult.commute)

lemma accounted_counts_sent:
  "sender.accounted n sys \<Longrightarrow> counts_sent n sys" "async_sender.accounted n sys' \<Longrightarrow> counts_sent n sys'"
  using counts_sentI [of sys] counts_sentI [of sys'] sender.uncounted_calls_left [of sys]
    async_sender.uncounted_calls_left [of sys']
  unfolding sender.accounted_def async_sender.accounted_def by blast+

definition counts_received :: "(Receiver, 'w, OwningBuffer option, 'e) loop_system \<Rightarrow> bool" where
  "counts_received sys \<longleftrightarrow>
     (\<exists>counted rest. done_calls sys = counted @ rest \<and>
        calls_left (loop_thread sys) (length rest) (rcv_is_stopped (object sys)) \<and>
        sum_list (map fst (printed sys)) + messages_received (object sys) = int (length counted) \<and>
        sum_list (map snd (printed sys)) + rcv_bytes_payload (object sys) =
          int (sum_list (map (\<lambda>b. case b of None \<Rightarrow> 0 | Some b \<Rightarrow> buffer_size b) counted)))"

lemma accounted_counts_received:
  "receiver.accounted sys \<Longrightarrow> counts_received sys" "async_receiver.accounted sys' \<Longrightarrow> counts_received sys'"
  using receiver.uncounted_calls_left [of sys] async_receiver.uncounted_calls_left [of sys']
  unfolding receiver.accounted_def async_receiver.accounted_def counts_received_def by blast+

text \<open>
  C25: every message is counted once. In every interleaving of the loop or chain of handlers with reporting and
  stopping, the messages reported so far and the current counter of both senders add up to the successful
  sends, the payload to that many messages; those of all four receivers add up to the successful receives, the
  payload to the sizes of their buffers. Only the call that has not locked the mutex yet, the last one of an
  object that was stopped, or one that crashed it, is missing.
\<close>

theorem tools_count_messages:
  "counts_sent n (loop_run (send_loop_call h mem socket message) (send_loop_locked n) report_sender stop_sender es1
      (start_loop new_sender ids)) \<and>
   counts_sent n (loop_run (send_message_call h mem socket message) (send_message_locked n) report_sender stop_sender
      es2 (start_loop new_sender ids)) \<and>
   counts_received (loop_run (receive_loop_call h pool no_endpoint) receive_loop_locked report_receiver
       stop_receiver es3 (start_loop new_receiver (socket, destination, []))) \<and>
   counts_received (loop_run (npcap_receive_loop_call h pool to_endpoint) npcap_receive_loop_locked report_receiver
       stop_receiver es4 (start_loop new_receiver (np_socket, np_destination, []))) \<and>
   counts_received (loop_run (receive_message_call h pool new_endpoint) receive_message_locked report_receiver
       stop_receiver es3 (start_loop new_receiver (socket, []))) \<and>
   counts_received (loop_run (npcap_receive_message_call h pool to_endpoint new_endpoint) receive_message_locked
       report_receiver stop_receiver es4 (start_loop new_receiver (np_socket, [])))"
  unfolding npcap_receive_loop_locked_eq
  by (intro conjI accounted_counts_sent sender.run_accounted async_sender.run_accounted
      accounted_counts_received receiver.run_accounted async_receiver.run_accounted)
    (simp_all add: new_sender_def new_receiver_def)

text \<open>
  An empty datagram crashes the receiver. When asio returns an empty datagram from the
  default endpoint, which \<^verbatim>\<open>receive_from\<close> takes for a socket that has been shut down,
  \<^verbatim>\<open>ReceiverSync\<close> sees no error and dereferences the null pointer it was given.
\<close>

lemma receiver_null_buffer:
  "loop_thread (loop_run (receive_loop_call h pool no_endpoint) receive_loop_locked report_receiver stop_receiver
       [Call [(t, Datagram [] no_endpoint)], Lock] (start_loop new_receiver (socket, destination, []))) =
     (Crashed Null_Dereference :: (OwningBuffer option, 'ec) loop_thread)"
  by (simp add: loop_run_def start_loop_def receive_loop_call_def receive_loop_locked_def new_receiver_def Let_def)

section \<open>What the sender puts on the wire\<close>

text \<open>A loop whose calls and locked blocks are free of faults, and whose results satisfy a predicate.\<close>

lemma loop_results:
  assumes "\<And>i w. case fst (call i w) of Call_Fault f \<Rightarrow> False | Call_Done r \<Rightarrow> P r | _ \<Rightarrow> True"
    and "\<And>r s f. locked r s \<noteq> Inl f"
  shows "(\<forall>r \<in> set (done_calls (loop_run call locked report stop es (start_loop s w))). P r) \<and>
    (\<forall>f. loop_thread (loop_run call locked report stop es (start_loop s w)) \<noteq> Crashed f)"
proof -
  let ?I = "\<lambda>sys. (\<forall>r \<in> set (done_calls sys). P r) \<and> (\<forall>f. loop_thread sys \<noteq> Crashed f)"
  have step: "?I (loop_step call locked report stop ev sys)" if "?I sys" for ev sys
  proof (cases ev)
    case (Call i)
    with that assms(1) [of i "network sys"] show ?thesis
      by (cases "call i (network sys)") (auto split: loop_thread.split call_result.splits)
  next
    case Lock
    with that show ?thesis
      using assms(2) by (auto split: loop_thread.split sum.split option.split)
  next
    case Report
    with that show ?thesis by (auto split: prod.split option.split)
  next
    case Stop
    with that show ?thesis by simp
  qed
  have "?I (start_loop s w)" by (simp add: start_loop_def)
  then show ?thesis
    unfolding loop_run_def using step by (rule fold_invariant [where Q = "\<lambda>_. True" and P = ?I, OF TrueI])
qed

lemma send_loop_call_result:
  assumes "builder_input mem message (max_udp_datagram_size socket)"
  shows "case fst (send_loop_call h mem socket message i ids) of
      Call_Done (n, wire) \<Rightarrow>
        \<exists>clock ids. wire = wire_datagrams (magic_header_bytes socket) (fst (next_message_id clock ids))
          (max_udp_datagram_size socket) (message_bytes mem message)
    | Call_Error e \<Rightarrow> True
    | _ \<Rightarrow> False"
proof -
  obtain answer clock where i: "i = (answer, clock)" by (cases i)
  let ?ds = "wire_datagrams (magic_header_bytes socket) (fst (next_message_id clock ids))
    (max_udp_datagram_size socket) (message_bytes mem message)"
  let ?k = "accepted answer 0 (length ?ds)"
  obtain sent ids' where s: "send_to h mem socket message answer None clock ids =
      Some (Inr ((sent, if ?k < length ?ds then snd (answer ?k) else None, take (Suc ?k) ?ds), ids'))"
    using send_to_spec [OF assms refl refl, of h answer None clock ids] by blast
  have "snd (answer ?k) \<noteq> None" if "?k < length ?ds"
    using that nth_length_takeWhile [of "\<lambda>j. snd (answer j) = None" "[0..<0 + length ?ds]"]
    by (simp add: accepted_def)
  then show ?thesis
    using s by (auto simp: i send_loop_call_def split: option.split)
qed

lemma sender_results:
  fixes es :: "((nat \<Rightarrow> nat \<times> 'ec option) \<times> int) loop_event list"
  assumes "builder_input mem message (max_udp_datagram_size socket)"
  shows "let sys = loop_run (send_loop_call h mem socket message) (send_loop_locked n) report_sender stop_sender es
      (start_loop new_sender ids)
    in (\<forall>f. loop_thread sys \<noteq> Crashed f) \<and>
      (\<forall>(k, wire) \<in> set (done_calls sys). \<exists>clock ids.
         wire = wire_datagrams (magic_header_bytes socket) (fst (next_message_id clock ids)) (max_udp_datagram_size socket) (message_bytes mem message))"
proof -
  let ?P = "\<lambda>(k :: nat, wire). \<exists>clock ids.
    wire = wire_datagrams (magic_header_bytes socket) (fst (next_message_id clock ids)) (max_udp_datagram_size socket) (message_bytes mem message)"
  have call: "case fst (send_loop_call h mem socket message i ids) of
      Call_Fault f \<Rightarrow> False | Call_Done r \<Rightarrow> ?P r | _ \<Rightarrow> True" for i :: "(nat \<Rightarrow> nat \<times> 'ec option) \<times> int" and ids
    using send_loop_call_result [OF assms, of h i ids] by (auto split: call_result.splits)
  have locked: "send_loop_locked n r s \<noteq> Inl f" for r s f
    by (simp add: send_loop_locked_def)
  note r = loop_results [where call = "send_loop_call h mem socket message" and locked = "send_loop_locked n"
      and P = ?P and es = es, OF call locked]
  show ?thesis
    unfolding Let_def by (intro conjI r [THEN conjunct1] r [THEN conjunct2])
qed



section \<open>The asynchronous sender and receivers\<close>

text \<open>
  Their completion handlers run one after the other in the thread of the io_context: the object is
  stopped only when it is destroyed. A handler closes the socket on an error; otherwise it counts
  and starts the next operation.
\<close>

datatype ('s, 'e) handler_result = Handler_Fault fault | Socket_Closed 'e | Next 's

definition send_message_handler :: "nat \<Rightarrow> 'ec option \<Rightarrow> Sender \<Rightarrow> (Sender, 'ec) handler_result" where
  "send_message_handler message_size ec s =
     (case ec of
        Some e \<Rightarrow> Socket_Closed e
      | None \<Rightarrow> Next (s\<lparr>bytes_payload := bytes_payload s + int message_size, messages_sent := messages_sent s + 1\<rparr>))"

definition receive_message_handler ::
    "OwningBuffer option \<Rightarrow> 'ec option \<Rightarrow> Receiver \<Rightarrow> (Receiver, 'ec) handler_result" where
  "receive_message_handler message ec s =
     (case ec of
        Some e \<Rightarrow> Socket_Closed e
      | None \<Rightarrow>
          (case message of
             None \<Rightarrow> Handler_Fault Null_Dereference
           | Some b \<Rightarrow> Next (s\<lparr>rcv_bytes_payload := rcv_bytes_payload s + int (buffer_size b),
                             messages_received := messages_received s + 1\<rparr>)))"

definition npcap_receive_message_handler ::
    "OwningBuffer option \<Rightarrow> Error \<Rightarrow> Receiver \<Rightarrow> (Receiver, Error) handler_result" where
  "npcap_receive_message_handler message error s =
     (if is_error error then Socket_Closed error
      else
        (case message of
           None \<Rightarrow> Handler_Fault Null_Dereference
         | Some b \<Rightarrow> Next (s\<lparr>rcv_bytes_payload := rcv_bytes_payload s + int (buffer_size b),
                           messages_received := messages_received s + 1\<rparr>)))"

text \<open>
  The chains of handlers. The sender gets, for each message, the error codes asio completes the
  sends of its datagrams with, and the time of the clock; \<open>None\<close> in the result when it still
  waits for a completion. The receivers get what arrives.
\<close>

fun send_message ::
    "host \<Rightarrow> memory \<Rightarrow> 'ep Socket \<Rightarrow> const_buffer list \<Rightarrow> nat \<Rightarrow> ('ec option list \<times> int) list \<Rightarrow> id_state \<Rightarrow> Sender \<Rightarrow>
     fault + Sender \<times> 'ec option" where
  "send_message h mem socket message n [] ids s = Inr (s, None)"
| "send_message h mem socket message n ((ecs, clock) # rest) ids s =
     (case async_send_to h mem socket message ecs clock ids of
        None \<Rightarrow> Inr (s, None)
      | Some (Inl f) \<Rightarrow> Inl f
      | Some (Inr (actions, ids)) \<Rightarrow>
          (case completion actions of
             None \<Rightarrow> Inr (s, None)
           | Some ec \<Rightarrow>
               (case send_message_handler n ec s of
                  Handler_Fault f \<Rightarrow> Inl f
                | Socket_Closed e \<Rightarrow> Inr (s, Some e)
                | Next s \<Rightarrow> send_message h mem socket message n rest ids s)))"

text \<open>Every receive is given a new endpoint object to fill.\<close>

function receive_message ::
    "host \<Rightarrow> (nat \<Rightarrow> byte) \<Rightarrow> 'ep \<Rightarrow> 'ep Socket \<Rightarrow> ('ep, 'ec) inbox \<Rightarrow> Receiver \<Rightarrow> fault + Receiver \<times> 'ec option" where
  "receive_message h pool new_endpoint socket rs s =
     (case async_receive_from h pool socket new_endpoint rs of
        Waiting socket \<Rightarrow> Inr (s, None)
      | Failed f \<Rightarrow> Inl f
      | Returned message ep ec socket rs \<Rightarrow>
          (case receive_message_handler message ec s of
             Handler_Fault f \<Rightarrow> Inl f
           | Socket_Closed e \<Rightarrow> Inr (s, Some e)
           | Next s \<Rightarrow> receive_message h pool new_endpoint socket rs s))"
  by pat_completeness auto
termination
  by (relation "measure (\<lambda>(h, pool, new_endpoint, socket, rs, s). length rs)")
    (auto simp: async_receive_from_loop dest: receive_loop_rest)

declare receive_message.simps [simp del]

function npcap_receive_message ::
    "host \<Rightarrow> (nat \<Rightarrow> byte) \<Rightarrow> ('addr \<Rightarrow> 'ep) \<Rightarrow> 'ep \<Rightarrow> 'ep SocketNpcap \<Rightarrow> 'addr npcap_inbox \<Rightarrow> Receiver \<Rightarrow>
     fault + Receiver \<times> Error option" where
  "npcap_receive_message h pool to_endpoint new_endpoint socket rs s =
     (case npcap_async_receive_from h pool to_endpoint socket new_endpoint rs of
        Npcap_Waiting socket \<Rightarrow> Inr (s, None)
      | Npcap_Failed f \<Rightarrow> Inl f
      | Npcap_Returned message ep error socket rs \<Rightarrow>
          (case npcap_receive_message_handler message error s of
             Handler_Fault f \<Rightarrow> Inl f
           | Socket_Closed e \<Rightarrow> Inr (s, Some e)
           | Next s \<Rightarrow> npcap_receive_message h pool to_endpoint new_endpoint socket rs s))"
  by pat_completeness auto
termination
  by (relation "measure (\<lambda>(h, pool, to_endpoint, new_endpoint, socket, rs, s). length rs)")
    (auto dest: npcap_async_rest)

declare npcap_receive_message.simps [simp del]

text \<open>The chain of handlers of the receiver is one of the interleavings of its loop, without reports.\<close>

lemma receive_message_fold:
  assumes "receive_message h pool ne socket rs s = Inr (s', e)"
    and "loop_thread sys = At_Call" "object sys = s" "network sys = (socket, rs)"
  shows "\<exists>es. let sys' = fold (loop_step (receive_message_call h pool ne) receive_message_locked report stop) es sys
    in object sys' = s' \<and> loop_thread sys' = (case e of None \<Rightarrow> At_Call | Some x \<Rightarrow> Left_Loop (Some x))"
  using assms
proof (induction h pool ne socket rs s arbitrary: sys rule: receive_message.induct)
  case (1 h pool ne socket rs s)
  let ?step = "loop_step (receive_message_call h pool ne) receive_message_locked report stop"
  let ?sys = "?step (Call []) sys"
  show ?case
  proof (cases "async_receive_from h pool socket ne rs")
    case (Waiting socket')
    with "1.prems" have "object ?sys = s' \<and> loop_thread ?sys = At_Call \<and> e = None"
      by (subst (asm) receive_message.simps) (auto simp: receive_message_call_def Let_def)
    then show ?thesis by (intro exI [of _ "[Call []]"]) simp
  next
    case (Failed f)
    with "1.prems"(1) show ?thesis by (subst (asm) receive_message.simps) simp
  next
    case (Returned message ep ec socket' rs')
    show ?thesis
    proof (cases ec)
      case (Some x)
      with Returned "1.prems" have "object ?sys = s' \<and> loop_thread ?sys = Left_Loop (Some x) \<and> e = Some x"
        by (subst (asm) receive_message.simps)
          (auto simp: receive_message_call_def receive_message_handler_def Let_def)
      then show ?thesis by (intro exI [of _ "[Call []]"]) simp
    next
      case None
      then obtain b where b: "message = Some b"
        using "1.prems"(1) Returned
        by (subst (asm) receive_message.simps) (cases message; simp add: receive_message_handler_def)
      let ?s = "s\<lparr>rcv_bytes_payload := rcv_bytes_payload s + int (buffer_size b), messages_received := messages_received s + 1\<rparr>"
      have n: "receive_message_handler message ec s = Next ?s"
        by (simp add: None b receive_message_handler_def)
      have r: "receive_message h pool ne socket' rs' ?s = Inr (s', e)"
        using "1.prems"(1) Returned n by (subst (asm) receive_message.simps) simp
      let ?sys2 = "?step Lock ?sys"
      have "loop_thread ?sys2 = At_Call" "object ?sys2 = ?s" "network ?sys2 = (socket', rs')"
        using "1.prems" Returned None b
        by (simp_all add: receive_message_call_def receive_message_locked_def Let_def)
      from "1.IH" [OF Returned n r this] obtain es where
        "object (fold ?step es ?sys2) = s'"
        "loop_thread (fold ?step es ?sys2) = (case e of None \<Rightarrow> At_Call | Some x \<Rightarrow> Left_Loop (Some x))"
        by (auto simp: Let_def)
      then show ?thesis by (intro exI [of _ "Call [] # Lock # es"]) (simp add: Let_def)
    qed
  qed
qed

section \<open>From one tool to the other\<close>

definition count_all :: "nat list \<Rightarrow> Receiver \<Rightarrow> Receiver" where
  "count_all ns s = s\<lparr>rcv_bytes_payload := rcv_bytes_payload s + int (sum_list ns),
     messages_received := messages_received s + int (length ns)\<rparr>"

lemma count_all_Cons:
  "count_all (n # ns) s = count_all ns (s\<lparr>rcv_bytes_payload := rcv_bytes_payload s + int n,
     messages_received := messages_received s + 1\<rparr>)"
  by (simp add: count_all_def)

lemma receive_message_run:
  assumes "socket_run h pool socket ds = Inr (rs, socket')" "list_all (\<lambda>(ep, b, e). pred_option valid_buffer b) rs"
  shows "receive_message h pool ne socket (map (\<lambda>(t, d, ep). (t, Datagram d ep)) ds) s =
    Inr (count_all (map (\<lambda>(ep, msg). length msg) (delivered rs)) s, None)"
  using assms
proof (induction ds arbitrary: socket rs s)
  case Nil
  then show ?case
    by (subst receive_message.simps) (simp add: async_receive_from_loop count_all_def)
next
  case (Cons x ds)
  obtain t d ep where x: "x = (t, d, ep)" by (metis prod_cases3)
  from Cons.prems obtain b e socket1 rs1 where h: "socket_handler h pool socket t d ep = Inr (b, e, socket1)"
    "socket_run h pool socket1 ds = Inr (rs1, socket')" "rs = (ep, b, e) # rs1"
    "list_all (\<lambda>(ep, b, e). pred_option valid_buffer b) rs1" "pred_option valid_buffer b"
    by (auto simp: x split: sum.splits)
  show ?case
  proof (cases b)
    case None
    then show ?thesis
      using Cons.IH [OF h(2,4), of s, unfolded receive_message.simps [of h pool ne socket1]] h
      by (subst receive_message.simps) (simp add: async_receive_from_loop x)
  next
    case (Some buf)
    with Cons.IH [OF h(2,4)] h show ?thesis
      by (subst receive_message.simps)
        (simp add: async_receive_from_loop x receive_message_handler_def count_all_Cons length_buffer_bytes)
  qed
qed

lemma sum_list_mset_eq:
  fixes f :: "'a \<Rightarrow> nat"
  assumes "mset xs = mset ys"
  shows "sum_list (map f xs) = sum_list (map f ys)"
proof -
  have "sum_list (map f xs) = sum_mset (image_mset f (mset xs))" for xs
    by (induction xs) simp_all
  with assms show ?thesis by simp
qed

lemma receive_message_delivers:
  assumes "\<forall>(ep, x) \<in> set sends. valid_sending x \<and> s_magic x = magic_header_bytes socket"
    and "distinct (map (\<lambda>(ep, x). (ep, sent_id x)) (filter (\<lambda>(ep, x). fragmented x) sends))"
    and "mset (map (\<lambda>(t, d, ep). (ep, d)) ds) =
      mset (concat (map (\<lambda>(ep, x). map (Pair ep) (sent_datagrams x)) sends))"
    and "reassembly_v5 socket = Map.empty"
    and "\<forall>(t, d, ep) \<in> set ds. \<forall>(t', d', ep') \<in> set ds.
      clean_time t - access_time t' \<le> max_reassembly_age socket"
  shows "receive_message h pool new_endpoint socket (map (\<lambda>(t, d, ep). (t, Datagram d ep)) ds) new_receiver =
    Inr (\<lparr>rcv_is_stopped = False, rcv_bytes_payload = int (sum_list (map (\<lambda>(ep, x). length (sent_message x)) sends)),
          messages_received = int (length sends)\<rparr>, None)"
proof -
  obtain rs socket' where r: "socket_run h pool socket ds = Inr (rs, socket')"
      "list_all (\<lambda>(ep, b, e). pred_option valid_buffer b) rs"
    and m: "mset (delivered rs) = mset (map (\<lambda>(ep, x). (ep, sent_message x)) sends)"
    using delivery_run [OF assms, of h pool] by blast
  have "sum_list (map (\<lambda>(ep, msg). length msg) (delivered rs)) =
      sum_list (map (\<lambda>(ep, msg). length msg) (map (\<lambda>(ep, x). (ep, sent_message x)) sends))"
    by (rule sum_list_mset_eq [OF m])
  moreover have "length (delivered rs) = length sends"
    using m by (metis length_map size_mset)
  ultimately show ?thesis
    unfolding receive_message_run [OF r]
    by (simp add: count_all_def new_receiver_def comp_def case_prod_unfold)
qed

text \<open>
  The receiving tool counts what was sent. The datagrams of any number of messages (sent with the
  magic bytes of the receiver's socket, by any hosts, distinct ids for the fragmented messages of a
  sender) arrive in any order and interleaving while the clock advances by at most the age limit.
  Then \<^verbatim>\<open>ReceiverAsync\<close> has counted exactly these messages and the sum of their lengths,
  no handler ran into undefined behaviour, and it waits for more.
\<close>

lemma receiver_counts_delivery:
  assumes "\<forall>(ep, x) \<in> set sends. valid_sending x \<and> s_magic x = magic_header_bytes socket"
    and "distinct (map (\<lambda>(ep, x). (ep, sent_id x)) (filter (\<lambda>(ep, x). fragmented x) sends))"
    and "mset (map (\<lambda>(t, d, ep). (ep, d)) ds) =
      mset (concat (map (\<lambda>(ep, x). map (Pair ep) (sent_datagrams x)) sends))"
    and "reassembly_v5 socket = Map.empty"
    and "\<forall>(t, d, ep) \<in> set ds. \<forall>(t', d', ep') \<in> set ds.
      clean_time t - access_time t' \<le> max_reassembly_age socket"
  shows "receive_message h pool new_endpoint socket (map (\<lambda>(t, d, ep). (t, Datagram d ep)) ds) new_receiver =
    Inr (\<lparr>rcv_is_stopped = False, rcv_bytes_payload = int (sum_list (map (\<lambda>(ep, x). length (sent_message x)) sends)),
          messages_received = int (length sends)\<rparr>, None)"
  using assms by (rule receive_message_delivers)

lemma receiver_counts_delivery_witness:
  "receive_message Little_Endian (\<lambda>_. 0) ''new'' (new_socket (1, 2, 3, 4))
     (map (\<lambda>d. (\<lparr>clean_time = 7, access_time = 7\<rparr>, Datagram d ''sender'')) (rev (sent_datagrams demo_sending))
        :: (string, nat) inbox) new_receiver =
   Inr (\<lparr>rcv_is_stopped = False, rcv_bytes_payload = 8, messages_received = 1\<rparr>, None)"
proof -
  let ?ds = "map (\<lambda>d. (\<lparr>clean_time = 7, access_time = 7\<rparr>, d, ''sender'')) (rev (sent_datagrams demo_sending))"
  let ?sends = "[(''sender'', demo_sending)]" and ?s = "new_socket (1, 2, 3, 4) :: string Socket"
  have "\<forall>(ep, x) \<in> set ?sends. valid_sending x \<and> s_magic x = magic_header_bytes ?s"
    using demo_valid by (simp add: demo_sending_def new_socket_def)
  moreover have "mset (map (\<lambda>(t, d, ep). (ep, d)) ?ds) =
      mset (concat (map (\<lambda>(ep, x). map (Pair ep) (sent_datagrams x)) ?sends))"
    by (simp add: comp_def)
  moreover have "distinct (map (\<lambda>(ep, x). (ep, sent_id x)) (filter (\<lambda>(ep, x). fragmented x) ?sends))"
    by simp
  ultimately show ?thesis
    using receiver_counts_delivery [of ?sends ?s ?ds Little_Endian "\<lambda>_. 0" "''new''"]
    by (auto simp: demo_sent new_socket_def comp_def)
qed

text \<open>The error the completion handler of a message gets: the first among those of its datagrams.\<close>

fun first_error :: "'ec option list \<Rightarrow> 'ec option" where
  "first_error [] = None"
| "first_error (ec # ecs) = (if ec \<noteq> None then ec else first_error ecs)"

lemma async_send_nonempty: "async_send_datagram_list_to mem ds ecs \<noteq> []"
  by (cases ds) simp_all

lemma last_send_action [simp]: "last (Send d # async_send_datagram_list_to mem ds ecs) =
    last (async_send_datagram_list_to mem ds ecs)"
  by (simp add: async_send_nonempty)

lemma completion_first_error:
  "length ds \<le> length ecs \<Longrightarrow>
     completion (async_send_datagram_list_to mem ds ecs) = Some (first_error (take (length ds) ecs))"
proof (induction mem ds ecs rule: async_send_datagram_list_to.induct)
  case (2 mem d ds ecs)
  then obtain ec ecs' where ecs: "ecs = ec # ecs'" by (cases ecs) auto
  with 2 show ?case by (cases ec) (auto simp: completion_def async_send_nonempty)
qed (simp add: completion_def)

lemma length_wire_datagrams: "length (wire_datagrams m i k msg) = length (wire_datagrams m j k msg)"
  by (simp add: wire_datagrams_def wire_fragments_def Let_def)

text \<open>
  The asynchronous sender counts the messages up to the first error. Once asio has completed
  every send, the counters of \<^verbatim>\<open>SenderAsync\<close> have grown by the messages before the first one
  with a refused datagram, and the socket has been closed on the error of that datagram; without an
  error all messages are counted.
\<close>

lemma async_sender_counts:
  assumes "builder_input mem message (max_udp_datagram_size socket)"
    and "D = length (wire_datagrams (magic_header_bytes socket) 0 (max_udp_datagram_size socket) (message_bytes mem message))"
    and "\<forall>(ecs, clock) \<in> set todo. D \<le> length ecs"
    and "m = length (takeWhile (\<lambda>(ecs, clock). first_error (take D ecs) = None) todo)"
  shows "send_message h mem socket message n todo ids s =
    Inr (s\<lparr>bytes_payload := bytes_payload s + int (n * m), messages_sent := messages_sent s + int m\<rparr>,
         if m < length todo then first_error (take D (fst (todo ! m))) else None)"
  using assms(3,4)
proof (induction todo arbitrary: ids s m)
  case Nil
  then show ?case by simp
next
  case (Cons x todo)
  obtain ecs clock where x: "x = (ecs, clock)" by (cases x)
  obtain dl ids' where dl: "create_datagram_list h message (max_udp_datagram_size socket) (magic_header_bytes socket)
      clock ids = Some (Inr (dl, ids'))" and "map (datagram_bytes mem) dl =
      wire_datagrams (magic_header_bytes socket) (fst (next_message_id clock ids)) (max_udp_datagram_size socket)
        (message_bytes mem message)"
    using create_datagram_list_spec [OF assms(1)] by metis
  then have D: "length dl = D"
    unfolding assms(2) by (metis length_map length_wire_datagrams)
  then have c: "completion (async_send_datagram_list_to mem dl ecs) = Some (first_error (take D ecs))"
    using completion_first_error [of dl ecs mem] Cons.prems(1) by (simp add: x)
  show ?case
  proof (cases "first_error (take D ecs)")
    case None
    let ?s = "s\<lparr>bytes_payload := bytes_payload s + int n, messages_sent := messages_sent s + 1\<rparr>"
    obtain k where m: "m = Suc k" "k = length (takeWhile (\<lambda>(ecs, clock). first_error (take D ecs) = None) todo)"
      using Cons.prems(2) None by (simp add: x)
    have "send_message h mem socket message n (x # todo) ids s = send_message h mem socket message n todo ids' ?s"
      using dl c None by (simp add: x async_send_to_def send_message_handler_def)
    also have "\<dots> = Inr (?s\<lparr>bytes_payload := bytes_payload ?s + int (n * k), messages_sent := messages_sent ?s + int k\<rparr>,
         if k < length todo then first_error (take D (fst (todo ! k))) else None)"
      using Cons.prems(1) m(2) by (intro Cons.IH) simp_all
    finally show ?thesis by (simp add: m(1))
  next
    case (Some e)
    with Cons.prems(2) dl c show ?thesis by (simp add: x async_send_to_def send_message_handler_def)
  qed
qed

lemma async_sender_counts_witness:
  "\<exists>s. send_message Little_Endian demo_memory demo_socket demo_buffers 8
     [([None, None, None], 5), ([None, Some (105 :: nat), None], 6)] None new_sender = Inr (s, Some 105) \<and>
     messages_sent s = 1 \<and> bytes_payload s = 8"
proof -
  have "builder_input demo_memory demo_buffers (max_udp_datagram_size demo_socket)" using demo_input by simp
  moreover have "3 = length (wire_datagrams (magic_header_bytes demo_socket) 0 (max_udp_datagram_size demo_socket)
      (message_bytes demo_memory demo_buffers))"
    using demo_datagrams by simp
  ultimately show ?thesis
    using async_sender_counts [of demo_memory demo_buffers demo_socket 3
        "[([None, None, None], 5), ([None, Some (105 :: nat), None], 6)]" 1 Little_Endian 8 None new_sender]
    by (simp add: new_sender_def)
qed

section \<open>The npcap receiver counts the same\<close>

text \<open>The loop of the npcap socket, read as one of the asio socket.\<close>

fun outcome_as_socket ::
    "('ep, 'ec, 'ep SocketNpcap) receive_outcome \<Rightarrow> ('ep, 'ec, 'ep Socket) receive_outcome" where
  "outcome_as_socket (Waiting s) = Waiting (as_socket s)"
| "outcome_as_socket (Returned b ep ec s rs) = Returned b ep ec (as_socket s) rs"
| "outcome_as_socket (Failed f) = Failed f"

lemma socket_handler_as_socket:
  "socket_handler h pool (as_socket s) t d ep =
     map_sum id (\<lambda>(b, e, s). (b, e, as_socket s)) (npcap_handler h pool s t d ep)"
  by (simp add: socket_handler_def npcap_handler_def npcap_handler_eq)

lemma receive_loop_as_socket:
  "receive_loop (socket_handler h pool) (\<lambda>_ _. False) (as_socket s) sender rs =
     outcome_as_socket (receive_loop (npcap_handler h pool) (\<lambda>_ _. False) s sender rs)"
proof (induction rs arbitrary: s)
  case (Cons r rs)
  obtain t x where r: "r = (t, x)" by (cases r)
  show ?case
    by (cases x) (auto simp: r socket_handler_as_socket Cons.IH split: sum.split option.split)
qed simp

lemma npcap_next_error:
  "npcap_receive_next_datagram_from h pool to_endpoint s sender rs = Npcap_Returned b ep e s' rs' \<Longrightarrow>
     b = None \<longleftrightarrow> is_error e"
proof (induction rs arbitrary: s)
  case (Cons x rs)
  obtain t r where x: "x = (t, r)" by (cases x)
  show ?case
  proof (cases "is_error (toEcaludpError (u_error r))")
    case True
    with Cons.prems show ?thesis by (auto simp: x)
  next
    case False
    with Cons.prems obtain b1 e1 s1 where h: "npcap_handle_datagram h pool s t (u_bytes r) (to_endpoint (u_sender r))
        (error_of_code GENERIC_ERROR) = Inr (b1, e1, s1)"
      by (auto simp: x Let_def split: sum.splits)
    show ?thesis
    proof (cases b1)
      case None
      with Cons.IH [of s1] Cons.prems False h show ?thesis by (simp add: x)
    next
      case (Some b2)
      with Cons.prems False h npcap_handler_ok [OF h [unfolded Some]] show ?thesis by (auto simp: x)
    qed
  qed
qed simp

lemmas npcap_async_error = npcap_next_error [folded npcap_async_receive_from_def]

text \<open>
  The npcap receiver counts what the asio receiver counts. On the same results of the
  network, clocks and pending packages, the asynchronous npcap receiver of the performance tool ends with
  the counters, the error or the fault of the asio one; so it counts every delivered message as well.
\<close>

lemma npcap_receiver_agrees:
  "npcap_receive_message h pool to_endpoint ne s rs rcv =
     receive_message h pool ne (as_socket s) (map (as_received to_endpoint) rs) rcv"
proof (induction h pool to_endpoint ne s rs rcv rule: npcap_receive_message.induct)
  case (1 h pool to_endpoint ne s rs rcv)
  have o: "async_receive_from h pool (as_socket s) ne (map (as_received to_endpoint) rs) =
      outcome_as_socket (as_outcome to_endpoint (npcap_async_receive_from h pool to_endpoint s ne rs))"
    by (simp add: async_receive_from_loop npcap_async_loop receive_loop_as_socket)
  show ?case
  proof (cases "npcap_async_receive_from h pool to_endpoint s ne rs")
    case (Npcap_Returned b ep e s' rs')
    show ?thesis
    proof (cases b)
      case None
      with Npcap_Returned npcap_async_error [OF Npcap_Returned] o show ?thesis
        by (subst npcap_receive_message.simps, subst receive_message.simps)
          (simp add: npcap_receive_message_handler_def receive_message_handler_def)
    next
      case (Some buf)
      with 1 [OF Npcap_Returned] Npcap_Returned npcap_async_error [OF Npcap_Returned] o show ?thesis
        by (subst npcap_receive_message.simps, subst receive_message.simps)
          (simp add: npcap_receive_message_handler_def receive_message_handler_def)
    qed
  qed (use o in \<open>subst npcap_receive_message.simps, subst receive_message.simps, simp\<close>)+
qed

end
