(* ===== verification/Perftool_Lifecycle.thy ===== *)
theory Perftool_Lifecycle
  imports Perftool_Loops Lossy_Network "HOL-Library.Sublist"
begin

text \<open>
  The life of a sender or receiver of the performance tool: what its constructor prints, how
  \<^verbatim>\<open>start()\<close> creates the socket and the thread, what the loops do behind their end, and the
  destructors, that of the derived class before that of \<^verbatim>\<open>Sender\<close> or \<^verbatim>\<open>Receiver\<close>
  (src/samples/ecaludp_perftool/src/sender*.cpp and receiver*.cpp). Asio and the clock are parameters.
\<close>

section \<open>Starting\<close>

text \<open>What the constructors print, that of the base class first; it also starts the reporting thread.\<close>

definition sender_constructor :: "SenderParameters \<Rightarrow> string" where
  "sender_constructor p = sender_to_string p"

definition receiver_constructor :: "ReceiverParameters \<Rightarrow> string" where
  "receiver_constructor p = receiver_to_string p"

definition sender_sync_constructor :: "SenderParameters \<Rightarrow> string" where
  "sender_sync_constructor p = sender_constructor p @ ''Sender implementation: Synchronous asio'' @ newline"

definition sender_async_constructor :: "SenderParameters \<Rightarrow> string" where
  "sender_async_constructor p = sender_constructor p @ ''Sender implementation: Asynchronous asio'' @ newline"

definition receiver_sync_constructor :: "ReceiverParameters \<Rightarrow> string" where
  "receiver_sync_constructor p = receiver_constructor p @ ''Receiver implementation: Synchronous asio'' @ newline"

definition receiver_async_constructor :: "ReceiverParameters \<Rightarrow> string" where
  "receiver_async_constructor p = receiver_constructor p @ ''Receiver implementation: Asynchronous asio'' @ newline"

definition receiver_npcap_sync_constructor :: "ReceiverParameters \<Rightarrow> string" where
  "receiver_npcap_sync_constructor p =
     receiver_constructor p @ ''Receiver implementation: Synchronous NPCAP'' @ newline"

definition receiver_npcap_async_constructor :: "ReceiverParameters \<Rightarrow> string" where
  "receiver_npcap_async_constructor p =
     receiver_constructor p @ ''Receiver implementation: Asynchronous NPCAP'' @ newline"

text \<open>
  The sockets are created by the thread of a synchronous loop, or by \<^verbatim>\<open>start()\<close> of an
  asynchronous implementation. A failure is written to \<^verbatim>\<open>cerr\<close>, and the process exits with
  the code 1.
\<close>

definition creation_error :: "string \<Rightarrow> string" where
  "creation_error e = ''Error creating socket: '' @ e @ newline"

definition sender_async_start ::
    "('addr, 'os) asio \<Rightarrow> SenderParameters \<Rightarrow> 'os \<Rightarrow> (string + 'ep Socket \<times> byte list) \<times> 'os" where
  "sender_async_start asio p os =
     (case CreateSendSocket asio p os of
        (Inl e, os) \<Rightarrow> (Inl (creation_error e), os)
      | (Inr socket, os) \<Rightarrow> (Inr (socket, replicate (s_message_size p) 97), os))"

definition receive_loop_start ::
    "('addr, 'os) asio \<Rightarrow> 'ep \<Rightarrow> ReceiverParameters \<Rightarrow> 'os \<Rightarrow> (string + 'ep Socket \<times> 'ep) \<times> 'os" where
  "receive_loop_start asio new_endpoint p os =
     (case CreateReceiveSocket asio p os of
        (Inl e, os) \<Rightarrow> (Inl (creation_error e), os)
      | (Inr socket, os) \<Rightarrow> (Inr (socket, new_endpoint), os))"

text \<open>
  \<^verbatim>\<open>ReceiverAsync::start\<close> and the thread of \<^verbatim>\<open>ReceiverNpcapSync\<close> build an endpoint from
  the address again, which throws for an invalid one.
\<close>

definition make_endpoint :: "('addr, 'os) asio \<Rightarrow> ('addr \<Rightarrow> u16 \<Rightarrow> 'ep) \<Rightarrow> ReceiverParameters \<Rightarrow> fault + 'ep" where
  "make_endpoint asio endpoint p =
     (case make_address asio (r_ip p) of
        None \<Rightarrow> Inl (Invalid_Argument ''make_address'')
      | Some addr \<Rightarrow> Inr (endpoint addr (r_port p)))"

definition receiver_async_start ::
    "('addr, 'os) asio \<Rightarrow> ('addr \<Rightarrow> u16 \<Rightarrow> 'ep) \<Rightarrow> ReceiverParameters \<Rightarrow> 'os \<Rightarrow> (fault + string + 'ep Socket) \<times> 'os" where
  "receiver_async_start asio endpoint p os =
     (case CreateReceiveSocket asio p os of
        (Inl e, os) \<Rightarrow> (Inr (Inl (creation_error e)), os)
      | (Inr socket, os) \<Rightarrow>
          (case make_endpoint asio endpoint p of
             Inl f \<Rightarrow> (Inl f, os)
           | Inr ep \<Rightarrow> (Inr (Inr socket), os)))"

definition npcap_receive_loop_start ::
    "('addr, 'os) asio \<Rightarrow> ('addr npcap_call \<Rightarrow> 'os \<Rightarrow> bool \<times> 'os) \<Rightarrow> ('addr \<Rightarrow> u16 \<Rightarrow> 'ep) \<Rightarrow> ReceiverParameters \<Rightarrow>
     'os \<Rightarrow> (fault + string + 'ep SocketNpcap \<times> 'ep) \<times> 'os" where
  "npcap_receive_loop_start asio udpcap endpoint p os =
     (case NpcapCreateReceiveSocket asio udpcap p os of
        (Inl e, os) \<Rightarrow> (Inr (Inl (creation_error e)), os)
      | (Inr socket, os) \<Rightarrow>
          (case make_endpoint asio endpoint p of
             Inl f \<Rightarrow> (Inl f, os)
           | Inr ep \<Rightarrow> (Inr (Inr (socket, ep)), os)))"

definition receiver_npcap_async_start ::
    "('addr, 'os) asio \<Rightarrow> ('addr npcap_call \<Rightarrow> 'os \<Rightarrow> bool \<times> 'os) \<Rightarrow> ReceiverParameters \<Rightarrow> 'os \<Rightarrow>
     (string + 'ep SocketNpcap) \<times> 'os" where
  "receiver_npcap_async_start asio udpcap p os =
     (case NpcapCreateReceiveSocket asio udpcap p os of
        (Inl e, os) \<Rightarrow> (Inl (creation_error e), os)
      | (Inr socket, os) \<Rightarrow> (Inr socket, os))"

section \<open>Behind the loops\<close>

text \<open>
  The text on \<^verbatim>\<open>cerr\<close> when a loop ends on an error, and what the synchronous loops do behind
  their end; \<open>call\<close> answers the calls on the socket.
\<close>

datatype end_call = Shutdown_Both | Close

definition send_loop_error :: "string \<Rightarrow> string" where
  "send_loop_error message = ''Error sending message: '' @ message @ newline"

definition receive_loop_error :: "string \<Rightarrow> string" where
  "receive_loop_error message = ''Error receiving message: '' @ message @ newline"

definition send_loop_end :: "(end_call \<Rightarrow> 'os \<Rightarrow> string option \<times> 'os) \<Rightarrow> 'os \<Rightarrow> string \<times> 'os" where
  "send_loop_end call os =
     (let (ec, os) = call Shutdown_Both os;
          err = (case ec of Some m \<Rightarrow> ''Error shutting down socket: '' @ m @ newline | None \<Rightarrow> []);
          (ec, os) = call Close os;
          err = err @ (case ec of Some m \<Rightarrow> ''Error closing socket: '' @ m @ newline | None \<Rightarrow> [])
      in (err, os))"

definition receive_loop_end :: "(end_call \<Rightarrow> 'os \<Rightarrow> string option \<times> 'os) \<Rightarrow> 'os \<Rightarrow> string \<times> 'os" where
  "receive_loop_end call os =
     (let (ec, os) = call Shutdown_Both os;
          err = (case ec of Some m \<Rightarrow> ''Error shutting down socket: '' @ m @ newline | None \<Rightarrow> []);
          (ec, os) = call Close os;
          err = err @ (case ec of Some m \<Rightarrow> ''Error closing socket: '' @ m @ newline | None \<Rightarrow> [])
      in (err, os))"

section \<open>Objects and their destructors\<close>

text \<open>
  The destructor runs in a thread of its own, through these phases: the derived class joins the thread
  of the loop, the base class stops the statistics thread and joins it.
\<close>

datatype phase = Alive | Joining_Loop | Stopping | Joining_Statistics | Destroyed | Destructor_Crashed fault

record ('s, 'w, 'r, 'e) tool =
  system :: "('s, 'w, 'r, 'e) loop_system"
  started :: bool
  phase :: phase

definition new_tool :: "'s \<Rightarrow> 'w \<Rightarrow> ('s, 'w, 'r, 'e) tool" where
  "new_tool s w = \<lparr>system = start_loop s w, started = False, phase = Alive\<rparr>"

text \<open>
  What happens to an object: \<^verbatim>\<open>start()\<close>, a step of one of its threads, or a step of the
  destructor. A thread that joins another one stays where it is until the other one has ended; a
  loop that crashed never has.
\<close>

datatype 'i life_event = Start_Called | Step "'i loop_event" | Destroy

definition base_destructor :: "('s \<Rightarrow> 's) \<Rightarrow> ('s, 'w, 'r, 'e) tool \<Rightarrow> ('s, 'w, 'r, 'e) tool" where
  "base_destructor stop t =
     (case phase t of
        Stopping \<Rightarrow> t\<lparr>system := (system t)\<lparr>object := stop (object (system t))\<rparr>, phase := Joining_Statistics\<rparr>
      | Joining_Statistics \<Rightarrow> if reporting (system t) then t else t\<lparr>phase := Destroyed\<rparr>
      | _ \<Rightarrow> t)"

text \<open>
  The destructors of \<^verbatim>\<open>SenderSync\<close>, \<^verbatim>\<open>ReceiverSync\<close> and
  \<^verbatim>\<open>ReceiverNpcapSync\<close>, each written out in its class.
\<close>

definition sync_destructor :: "('s \<Rightarrow> 's) \<Rightarrow> ('s, 'w, 'r, 'e) tool \<Rightarrow> ('s, 'w, 'r, 'e) tool" where
  "sync_destructor stop t =
     (case phase t of
        Alive \<Rightarrow> t\<lparr>phase := (if started t then Joining_Loop else Stopping)\<rparr>
      | Joining_Loop \<Rightarrow>
          (case loop_thread (system t) of Left_Loop e \<Rightarrow> t\<lparr>phase := Stopping\<rparr> | _ \<Rightarrow> t)
      | _ \<Rightarrow> base_destructor stop t)"

definition receiver_sync_destructor :: "('s \<Rightarrow> 's) \<Rightarrow> ('s, 'w, 'r, 'e) tool \<Rightarrow> ('s, 'w, 'r, 'e) tool" where
  "receiver_sync_destructor stop t =
     (case phase t of
        Alive \<Rightarrow> t\<lparr>phase := (if started t then Joining_Loop else Stopping)\<rparr>
      | Joining_Loop \<Rightarrow>
          (case loop_thread (system t) of Left_Loop e \<Rightarrow> t\<lparr>phase := Stopping\<rparr> | _ \<Rightarrow> t)
      | _ \<Rightarrow> base_destructor stop t)"

definition receiver_npcap_sync_destructor :: "('s \<Rightarrow> 's) \<Rightarrow> ('s, 'w, 'r, 'e) tool \<Rightarrow> ('s, 'w, 'r, 'e) tool" where
  "receiver_npcap_sync_destructor stop t =
     (case phase t of
        Alive \<Rightarrow> t\<lparr>phase := (if started t then Joining_Loop else Stopping)\<rparr>
      | Joining_Loop \<Rightarrow>
          (case loop_thread (system t) of Left_Loop e \<Rightarrow> t\<lparr>phase := Stopping\<rparr> | _ \<Rightarrow> t)
      | _ \<Rightarrow> base_destructor stop t)"

text \<open>
  Those of \<^verbatim>\<open>SenderAsync\<close> and \<^verbatim>\<open>ReceiverAsync\<close>. Cancelling the socket completes the
  operation in progress with the error \<open>aborted\<close>, but while the completion handler runs there is
  none. The thread exists only after \<^verbatim>\<open>start()\<close>, but is asked without a check.
\<close>

definition cancel :: "'e \<Rightarrow> ('s, 'w, 'r, 'e) loop_system \<Rightarrow> ('s, 'w, 'r, 'e) loop_system" where
  "cancel aborted sys =
     (case loop_thread sys of At_Call \<Rightarrow> sys\<lparr>loop_thread := Left_Loop (Some aborted)\<rparr> | _ \<Rightarrow> sys)"

definition async_destructor :: "'e \<Rightarrow> ('s \<Rightarrow> 's) \<Rightarrow> ('s, 'w, 'r, 'e) tool \<Rightarrow> ('s, 'w, 'r, 'e) tool" where
  "async_destructor aborted stop t =
     (case phase t of
        Alive \<Rightarrow>
          if started t then t\<lparr>system := cancel aborted (system t), phase := Joining_Loop\<rparr>
          else t\<lparr>phase := Destructor_Crashed Null_Dereference\<rparr>
      | Joining_Loop \<Rightarrow>
          (case loop_thread (system t) of Left_Loop e \<Rightarrow> t\<lparr>phase := Stopping\<rparr> | _ \<Rightarrow> t)
      | _ \<Rightarrow> base_destructor stop t)"

definition receiver_async_destructor :: "'e \<Rightarrow> ('s \<Rightarrow> 's) \<Rightarrow> ('s, 'w, 'r, 'e) tool \<Rightarrow> ('s, 'w, 'r, 'e) tool" where
  "receiver_async_destructor aborted stop t =
     (case phase t of
        Alive \<Rightarrow>
          if started t then t\<lparr>system := cancel aborted (system t), phase := Joining_Loop\<rparr>
          else t\<lparr>phase := Destructor_Crashed Null_Dereference\<rparr>
      | Joining_Loop \<Rightarrow>
          (case loop_thread (system t) of Left_Loop e \<Rightarrow> t\<lparr>phase := Stopping\<rparr> | _ \<Rightarrow> t)
      | _ \<Rightarrow> base_destructor stop t)"

lemma receiver_destructors:
  "receiver_sync_destructor = sync_destructor" "receiver_npcap_sync_destructor = sync_destructor"
  "receiver_async_destructor = async_destructor"
  by (simp_all add: fun_eq_iff receiver_sync_destructor_def receiver_npcap_sync_destructor_def sync_destructor_def
      receiver_async_destructor_def async_destructor_def)

text \<open>
  That of \<^verbatim>\<open>ReceiverNpcapAsync\<close> closes the socket, after which udpcap returns nothing but an
  error, and its member destructors join the thread of the socket, which ends on that error.
\<close>

definition npcap_close :: "clocks \<Rightarrow> 'addr \<Rightarrow> 'ep SocketNpcap \<times> 'addr npcap_inbox \<Rightarrow> 'ep SocketNpcap \<times> 'addr npcap_inbox" where
  "npcap_close t addr w =
     (fst w, [(t, \<lparr>u_error = \<lparr>u_code = Udpcap_SOCKET_CLOSED, u_message = [], u_string = []\<rparr>, u_bytes = [], u_sender = addr\<rparr>)])"

definition npcap_async_destructor ::
    "('w \<Rightarrow> 'w) \<Rightarrow> ('s \<Rightarrow> 's) \<Rightarrow> ('s, 'w, 'r, 'e) tool \<Rightarrow> ('s, 'w, 'r, 'e) tool" where
  "npcap_async_destructor close stop t =
     (case phase t of
        Alive \<Rightarrow>
          if started t
          then t\<lparr>system := (system t)\<lparr>network := close (network (system t))\<rparr>, phase := Joining_Loop\<rparr>
          else t\<lparr>phase := Stopping\<rparr>
      | Joining_Loop \<Rightarrow>
          (case loop_thread (system t) of Left_Loop e \<Rightarrow> t\<lparr>phase := Stopping\<rparr> | _ \<Rightarrow> t)
      | _ \<Rightarrow> base_destructor stop t)"

fun life_step ::
    "(('s, 'w, 'r, 'e) tool \<Rightarrow> ('s, 'w, 'r, 'e) tool) \<Rightarrow>
     ('i loop_event \<Rightarrow> ('s, 'w, 'r, 'e) loop_system \<Rightarrow> ('s, 'w, 'r, 'e) loop_system) \<Rightarrow>
     'i life_event \<Rightarrow> ('s, 'w, 'r, 'e) tool \<Rightarrow> ('s, 'w, 'r, 'e) tool" where
  "life_step destructor step Start_Called t = (if phase t = Alive then t\<lparr>started := True\<rparr> else t)"
| "life_step destructor step (Step Stop) t = t"
| "life_step destructor step (Step Report) t = t\<lparr>system := step Report (system t)\<rparr>"
| "life_step destructor step (Step ev) t = (if started t then t\<lparr>system := step ev (system t)\<rparr> else t)"
| "life_step destructor step Destroy t = destructor t"

definition life_run ::
    "(('s, 'w, 'r, 'e) tool \<Rightarrow> ('s, 'w, 'r, 'e) tool) \<Rightarrow>
     ('i loop_event \<Rightarrow> ('s, 'w, 'r, 'e) loop_system \<Rightarrow> ('s, 'w, 'r, 'e) loop_system) \<Rightarrow>
     'i life_event list \<Rightarrow> ('s, 'w, 'r, 'e) tool \<Rightarrow> ('s, 'w, 'r, 'e) tool" where
  "life_run destructor step es t = fold (life_step destructor step) es t"

section \<open>Who waits for whom\<close>

text \<open>The destructor of a started object gets past its first join only when the loop ended on an error.\<close>

definition joined_after_error :: "('s, 'w, 'r, 'e) tool \<Rightarrow> bool" where
  "joined_after_error t \<longleftrightarrow>
     (started t \<longrightarrow> phase t \<in> {Alive, Joining_Loop} \<or> (\<exists>e. loop_thread (system t) = Left_Loop (Some e)))"

abbreviation left_loop :: "('s, 'w, 'r, 'e) loop_system \<Rightarrow> bool" where
  "left_loop sys \<equiv> \<exists>e. loop_thread sys = Left_Loop e"

lemma loop_step_left:
  "loop_thread sys = Left_Loop e \<Longrightarrow> loop_thread (loop_step call locked report stop ev sys) = Left_Loop e"
  by (cases ev) (simp_all split: prod.split option.split)

context counted_loop
begin

abbreviation step where
  "step call \<equiv> loop_step call locked report stop"

lemma step_runs:
  assumes "\<not> stopped (object sys)" "loop_thread sys \<noteq> Left_Loop None" "ev \<noteq> Stop"
  shows "\<not> stopped (object (step call ev sys)) \<and> loop_thread (step call ev sys) \<noteq> Left_Loop None"
proof (cases ev)
  case (Call i)
  with assms show ?thesis
    by (cases "call i (network sys)") (auto simp: Let_def split: loop_thread.split call_result.split)
next
  case Lock
  show ?thesis
  proof (cases "loop_thread sys")
    case (At_Lock r)
    show ?thesis
    proof (cases "locked r (object sys)")
      case (Inr res)
      with At_Lock Lock assms(1) locked_counts [of r "object sys"] locked_ends [of r "object sys"] show ?thesis
        by (cases res) auto
    qed (use At_Lock Lock assms(1) in simp)
  qed (use Lock assms in simp_all)
next
  case Report
  obtain line s where r: "report (object sys) = (line, s)" by (cases "report (object sys)")
  show ?thesis
    using Report assms r report_none [of "object sys" s] report_some [of "object sys" _ _ s]
    by (cases line) auto
qed (use assms in simp)

definition life_inv :: "('s, 'w, 'r, 'e) tool \<Rightarrow> bool" where
  "life_inv t \<longleftrightarrow>
     (phase t \<in> {Joining_Statistics, Destroyed} \<or> \<not> stopped (object (system t)) \<and> loop_thread (system t) \<noteq> Left_Loop None) \<and>
     (phase t \<in> {Alive, Joining_Loop} \<or> \<not> started t \<or> (\<exists>e. loop_thread (system t) = Left_Loop (Some e)))"

lemma life_inv_joined: "life_inv t \<Longrightarrow> joined_after_error t"
  by (auto simp: life_inv_def joined_after_error_def)

lemma thread_step_inv:
  assumes "life_inv t" "ev \<noteq> Stop"
  shows "life_inv (t\<lparr>system := step call ev (system t)\<rparr>)"
  using assms step_runs [of "system t" ev call] loop_step_left [of "system t" _ call locked report stop ev]
  by (fastforce simp: life_inv_def)

lemma base_inv: "life_inv t \<Longrightarrow> life_inv (base_destructor stop t)"
  by (auto simp: life_inv_def base_destructor_def split: phase.split)

lemma destructor_inv:
  assumes "life_inv t"
  shows "life_inv (sync_destructor stop t)" and "life_inv (async_destructor aborted stop t)"
    and "life_inv (npcap_async_destructor close stop t)"
proof -
  note base = base_inv [OF assms]
  show "life_inv (sync_destructor stop t)"
    using assms base
    by (cases "phase t"; cases "loop_thread (system t)") (auto simp: sync_destructor_def life_inv_def)
  show "life_inv (async_destructor aborted stop t)"
    using assms base
    by (cases "phase t"; cases "loop_thread (system t)")
      (auto simp: async_destructor_def cancel_def life_inv_def)
  show "life_inv (npcap_async_destructor close stop t)"
    using assms base
    by (cases "phase t"; cases "loop_thread (system t)")
      (auto simp: npcap_async_destructor_def life_inv_def)
qed

lemma life_step_inv:
  assumes d: "\<And>t. life_inv t \<Longrightarrow> life_inv (destructor t)" and t: "life_inv t"
  shows "life_inv (life_step destructor (step call) ev t)"
proof (cases ev)
  case Start_Called
  with t show ?thesis by (auto simp: life_inv_def)
next
  case (Step lev)
  with t show ?thesis by (cases lev) (simp_all add: thread_step_inv del: loop_step.simps)
next
  case Destroy
  with d t show ?thesis by simp
qed

lemma life_run_joined:
  assumes "\<And>t. life_inv t \<Longrightarrow> life_inv (destructor t)" "\<not> stopped s"
  shows "joined_after_error (life_run destructor (step call) es (new_tool s w))"
proof (rule life_inv_joined)
  have "life_inv t \<Longrightarrow> life_inv (fold (life_step destructor (step call)) es t)" for t
    by (induction es arbitrary: t) (simp_all add: life_step_inv assms(1))
  then show "life_inv (life_run destructor (step call) es (new_tool s w))"
    using assms(2) by (simp add: life_run_def life_inv_def new_tool_def start_loop_def)
qed

lemmas sync_joined = life_run_joined [of "sync_destructor stop", OF destructor_inv(1)]
lemmas async_joined = life_run_joined [of "async_destructor aborted stop" for aborted, OF destructor_inv(2)]
lemmas npcap_async_joined = life_run_joined [of "npcap_async_destructor close stop" for close, OF destructor_inv(3)]

end

text \<open>
  The event with which the two destructors differ is their first one.
\<close>

lemma async_destructor_later: "phase t \<noteq> Alive \<Longrightarrow> async_destructor aborted stop t = sync_destructor stop t"
  by (simp add: async_destructor_def sync_destructor_def split: phase.split)

text \<open>What is left to happen, in this order, until the object is destroyed; anything may happen in between.\<close>

definition remaining :: "('s, 'w, 'r, 'e) tool \<Rightarrow> 'i life_event list" where
  "remaining t =
     (case phase t of
        Joining_Loop \<Rightarrow> [Destroy, Destroy, Step Report, Destroy]
      | Stopping \<Rightarrow> [Destroy, Step Report, Destroy]
      | Joining_Statistics \<Rightarrow> if reporting (system t) then [Step Report, Destroy] else [Destroy]
      | _ \<Rightarrow> [])"

context counted_loop
begin

text \<open>A destructor under way that has no loop to wait for.\<close>

definition ending :: "('s, 'w, 'r, 'e) tool \<Rightarrow> bool" where
  "ending t \<longleftrightarrow> phase t = Joining_Loop \<and> left_loop (system t) \<or> phase t = Stopping \<or>
     phase t = Joining_Statistics \<and> stopped (object (system t)) \<or> phase t = Destroyed"

lemma stopped_step: "stopped (object sys) \<Longrightarrow> stopped (object (step call ev sys))"
proof (cases ev)
  case (Call i)
  assume "stopped (object sys)"
  with Call show ?thesis
    by (cases "call i (network sys)") (auto simp: Let_def split: loop_thread.split call_result.split)
next
  case Lock
  assume "stopped (object sys)"
  show ?thesis
  proof (cases "loop_thread sys")
    case (At_Lock r)
    with Lock \<open>stopped (object sys)\<close> locked_counts [of r "object sys"] show ?thesis
      by (auto split: sum.split option.split)
  qed (use Lock \<open>stopped (object sys)\<close> in simp_all)
next
  case Report
  assume "stopped (object sys)"
  with report_ends [of "object sys"] obtain s where "report (object sys) = (None, s)"
    by (cases "report (object sys)") auto
  with Report report_none [of "object sys" s] \<open>stopped (object sys)\<close> show ?thesis by auto
qed (use stop_counts in simp)

lemma stopped_report:
  "stopped (object sys) \<Longrightarrow> \<not> reporting (step call Report sys)"
  using report_ends [of "object sys"] by (cases "report (object sys)") auto

lemma reporting_step:
  "reporting (step call ev sys) \<Longrightarrow> reporting sys"
  by (cases ev) (auto simp: Let_def split: loop_thread.splits sum.splits option.splits prod.splits
      call_result.splits if_splits)

lemma thread_remaining:
  assumes "ending t"
  shows "ending (t\<lparr>system := step call ev (system t)\<rparr>) \<and>
    subseq (remaining (t\<lparr>system := step call ev (system t)\<rparr>) :: 'i life_event list) (remaining t) \<and>
    (ev = Report \<longrightarrow> phase t = Joining_Statistics \<longrightarrow>
      remaining (t\<lparr>system := step call ev (system t)\<rparr>) = ([Destroy] :: 'i life_event list))"
  using assms stopped_step [of "system t" call ev] reporting_step [of call ev "system t"]
    loop_step_left [of "system t" _ call locked report stop ev] stopped_report [of "system t" call]
  by (auto simp: ending_def remaining_def simp del: loop_step.simps)

lemma destroy_remaining:
  assumes "ending t" "phase t \<noteq> Alive"
  shows "ending (sync_destructor stop t) \<and>
    subseq (remaining (sync_destructor stop t) :: 'i life_event list) (remaining t) \<and>
    (\<forall>es. remaining t = Destroy # es \<longrightarrow> subseq (remaining (sync_destructor stop t) :: 'i life_event list) es)"
  using assms stop_counts
  by (cases "phase t"; cases "loop_thread (system t)")
    (auto simp: ending_def remaining_def sync_destructor_def base_destructor_def)

lemma ending_returns:
  fixes es :: "'i life_event list"
  assumes "\<And>t. phase t \<noteq> Alive \<Longrightarrow> destructor t = sync_destructor stop t"
    and "ending t" "subseq (remaining t) es"
  shows "phase (life_run destructor (step call) es t) = Destroyed"
  using assms(2,3)
proof (induction es arbitrary: t)
  case Nil
  then show ?case by (auto simp: ending_def remaining_def life_run_def split: if_splits)
next
  case (Cons ev es)
  let ?t = "life_step destructor (step call) ev t"
  have a: "phase t \<noteq> Alive" using Cons.prems(1) by (auto simp: ending_def)
  have "ending ?t \<and> subseq (remaining ?t) es"
  proof (cases ev)
    case Start_Called
    with Cons.prems a show ?thesis by (auto simp: remaining_def split: phase.splits if_splits)
  next
    case Destroy
    have d: "ending (sync_destructor stop t)" "subseq (remaining (sync_destructor stop t) :: 'i life_event list) (remaining t)"
      "\<And>es :: 'i life_event list. remaining t = Destroy # es \<Longrightarrow> subseq (remaining (sync_destructor stop t)) es"
      using destroy_remaining [OF Cons.prems(1) a] by auto
    have "subseq (remaining (sync_destructor stop t)) es"
    proof (cases "\<exists>xs :: 'i life_event list. remaining t = Destroy # xs")
      case True
      then obtain xs :: "'i life_event list" where xs: "remaining t = Destroy # xs" by blast
      with Cons.prems(2) Destroy have "subseq xs es" by simp
      with d(3) [OF xs] show ?thesis by (rule subseq_order.trans)
    next
      case False
      with Cons.prems(2) Destroy have "subseq (remaining t) es"
        by (cases "remaining t :: 'i life_event list") (auto elim: list_emb.cases)
      with d(2) show ?thesis by (rule subseq_order.trans)
    qed
    with d(1) Destroy assms(1) [OF a] show ?thesis by simp
  next
    case (Step lev)
    have same: "ending t \<and> subseq (remaining t) es" if "remaining t \<noteq> ev # tl (remaining t)"
      using Cons.prems that by (cases "remaining t :: 'i life_event list") (auto elim: list_emb.cases)
    show ?thesis
    proof (cases "remaining t = ev # tl (remaining t)")
      case True
      then have "phase t = Joining_Statistics" "lev = Report"
        by (auto simp: remaining_def Step split: phase.splits if_splits)
      moreover from this True Cons.prems(2) have "subseq [Destroy] es"
        by (auto simp: remaining_def Step split: if_splits)
      ultimately show ?thesis
        using thread_remaining [OF Cons.prems(1), of call Report, where 'i = 'i] Step by simp
    next
      case False
      have "ending (t\<lparr>system := step call lev (system t)\<rparr>) \<and>
          subseq (remaining (t\<lparr>system := step call lev (system t)\<rparr>)) es"
        using thread_remaining [OF Cons.prems(1), of call lev] same [OF False]
        by (auto intro: subseq_order.trans)
      with same [OF False] Step show ?thesis by (cases lev) (simp_all del: loop_step.simps)
    qed
  qed
  with Cons.IH [of ?t] show ?case by (simp add: life_run_def)
qed

text \<open>Calls that bring no error keep the loop going, and the destructor waiting.\<close>

lemma joining_stays:
  fixes es :: "'i life_event list"
  assumes "\<And>i w. i \<in> I \<Longrightarrow> N w \<Longrightarrow> N (snd (call i w)) \<and> (\<forall>e. fst (call i w) \<noteq> Call_Error e)"
    and "\<And>t. phase t \<noteq> Alive \<Longrightarrow> destructor t = sync_destructor stop t"
    and "phase t = Joining_Loop" "\<not> stopped (object (system t))" "\<not> left_loop (system t)" "N (network (system t))"
    and "\<forall>i. Step (Call i) \<in> set es \<longrightarrow> i \<in> I"
  shows "phase (life_run destructor (step call) es t) = Joining_Loop"
  using assms(3-)
proof (induction es arbitrary: t)
  case (Cons ev es)
  let ?t = "life_step destructor (step call) ev t"
  have thread: "N (network (step call lev (system t))) \<and> \<not> left_loop (step call lev (system t))"
    if "ev = Step lev" "lev \<noteq> Stop" for lev
  proof (cases lev)
    case (Call i)
    with Cons.prems(5) that have "i \<in> I" by simp
    with Cons.prems assms(1) [of i "network (system t)"] Call show ?thesis
      by (cases "call i (network (system t))")
        (auto simp: Let_def split: loop_thread.split call_result.split)
  next
    case Lock
    with step_runs [of "system t" Lock call] Cons.prems show ?thesis
      by (auto split: loop_thread.splits sum.splits option.splits)
  next
    case Report
    with Cons.prems show ?thesis by (auto split: prod.split option.split)
  qed (use that in simp)
  have "phase ?t = Joining_Loop \<and> \<not> stopped (object (system ?t)) \<and> \<not> left_loop (system ?t) \<and> N (network (system ?t))"
  proof (cases ev)
    case Start_Called
    with Cons.prems show ?thesis by auto
  next
    case Destroy
    with Cons.prems assms(2) [of t] show ?thesis
      by (auto simp: sync_destructor_def split: loop_thread.split)
  next
    case (Step lev)
    show ?thesis
    proof (cases "lev = Stop")
      case False
      with thread [OF Step False] step_runs [of "system t" lev call] Cons.prems Step show ?thesis
        by (cases lev) (auto simp del: loop_step.simps)
    qed (use Step Cons.prems in simp)
  qed
  with Cons.IH [of ?t] Cons.prems(5) show ?case by (simp add: life_run_def)
qed (simp add: life_run_def)

end

section \<open>Properties\<close>


text \<open>Results of the network without an error.\<close>

definition no_errors :: "('ep, 'ec) inbox \<Rightarrow> bool" where
  "no_errors rs \<longleftrightarrow> list_all (\<lambda>(t, r). case r of Datagram d ep \<Rightarrow> True | Receive_Error ec \<Rightarrow> False) rs"

lemma no_errors_simps [simp]:
  "no_errors []"
  "no_errors (rs @ rs') \<longleftrightarrow> no_errors rs \<and> no_errors rs'"
  "no_errors ((t, Datagram d ep) # rs) \<longleftrightarrow> no_errors rs"
  "\<not> no_errors ((t, Receive_Error ec) # rs)"
  by (simp_all add: no_errors_def)

lemma receive_loop_no_errors:
  "receive_loop handle stop s sender rs = Returned b ep ec s' rs' \<Longrightarrow> no_errors rs \<Longrightarrow> ec = None \<and> no_errors rs'"
proof (induction rs arbitrary: s)
  case (Cons r rs)
  obtain t x where r: "r = (t, x)" by (cases r)
  from Cons show ?case
    by (cases x) (auto simp: r split: if_splits sum.splits option.splits)
qed simp

lemma receive_message_call_no_errors:
  "no_errors arriving \<Longrightarrow> no_errors (snd w) \<Longrightarrow>
     no_errors (snd (snd (receive_message_call h pool ne arriving w))) \<and>
     (\<forall>e. fst (receive_message_call h pool ne arriving w) \<noteq> Call_Error e)"
  using receive_loop_no_errors [of "socket_handler h pool" "\<lambda>_ _. False" "fst w" ne "snd w @ arriving"]
  by (cases w) (auto simp: receive_message_call_def async_receive_from_loop
      split: receive_outcome.split option.split)

text \<open>
  C26: the destructor of \<^verbatim>\<open>ReceiverAsync\<close> races with the completion handler. Let every thread
  be scheduled often enough afterwards, and let the network report no error. When the socket is
  cancelled while a receive is in progress (or the chain of handlers has ended), the object is
  destroyed; when a handler is about to run, or running, nothing is cancelled, the handler starts the next
  receive, and the destructor waits for the thread of the io_context ever after.
\<close>

theorem async_destructor_race:
  assumes "phase t = Alive" and "started t" and "\<not> rcv_is_stopped (object (system t))"
    and "no_errors (snd (network (system t)))"
    and "\<forall>arriving. Step (Call arriving) \<in> set es \<longrightarrow> no_errors arriving"
    and "subseq [Destroy, Destroy, Step Report, Destroy] es"
  shows "phase (life_run (receiver_async_destructor aborted stop_receiver)
      (loop_step (receive_message_call h pool ne) receive_message_locked report_receiver stop_receiver)
      (Destroy # es) t) =
    (case loop_thread (system t) of At_Call \<Rightarrow> Destroyed | Left_Loop e \<Rightarrow> Destroyed | _ \<Rightarrow> Joining_Loop)"
proof -
  let ?d = "async_destructor aborted stop_receiver"
  let ?step = "loop_step (receive_message_call h pool ne) receive_message_locked report_receiver stop_receiver"
  let ?t = "t\<lparr>system := cancel aborted (system t), phase := Joining_Loop\<rparr>"
  have run: "life_run ?d ?step (Destroy # es) t = life_run ?d ?step es ?t"
    using assms(1,2) by (simp add: life_run_def async_destructor_def)
  show ?thesis
  proof (cases "left_loop (cancel aborted (system t))")
    case True
    have "remaining ?t = [Destroy, Destroy, Step Report, Destroy :: ('a, 'b) inbox life_event]"
      by (simp add: remaining_def)
    with assms(6) have "phase (life_run ?d ?step es ?t) = Destroyed"
      using True by (intro async_receiver.ending_returns async_destructor_later)
        (simp_all add: async_receiver.ending_def remaining_def)
    with True show ?thesis
      unfolding receiver_destructors run by (auto simp: cancel_def split: loop_thread.splits)
  next
    case False
    then have c: "cancel aborted (system t) = system t" and l: "\<not> left_loop (system t)"
      by (auto simp: cancel_def split: loop_thread.splits)
    have "phase (life_run ?d ?step es ?t) = Joining_Loop"
    proof (rule async_receiver.joining_stays [where I = "Collect no_errors" and N = "\<lambda>w. no_errors (snd w)"])
      show "no_errors (snd (snd (receive_message_call h pool ne i w))) \<and>
          (\<forall>e. fst (receive_message_call h pool ne i w) \<noteq> Call_Error e)"
        if "i \<in> Collect no_errors" "no_errors (snd w)" for i w
        by (rule receive_message_call_no_errors) (use that in simp_all)
    next
      fix t' :: "(Receiver, 'a Socket \<times> ('a, 'b) inbox, OwningBuffer option, 'b) tool"
      assume "phase t' \<noteq> Alive"
      then show "?d t' = sync_destructor stop_receiver t'" by (rule async_destructor_later)
    qed (use assms(3-5) l in \<open>simp_all add: c\<close>)
    with False show ?thesis
      unfolding receiver_destructors run by (auto simp: cancel_def split: loop_thread.splits)
  qed
qed

text \<open>The same schedule, with the handler not called yet, and with the handler of a message of two bytes running.\<close>

definition demo_tool :: "(Receiver, string Socket \<times> (string, nat) inbox, OwningBuffer option, nat) tool" where
  "demo_tool = (new_tool new_receiver (new_socket (1, 2, 3, 4), []))\<lparr>started := True\<rparr>"

definition demo_busy_tool :: "(Receiver, string Socket \<times> (string, nat) inbox, OwningBuffer option, nat) tool" where
  "demo_busy_tool = demo_tool\<lparr>system := (system demo_tool)\<lparr>loop_thread := At_Lock (Some (owning_buffer 0 2 [8, 9]))\<rparr>\<rparr>"

theorem async_destructor_race_witness:
  "phase (life_run (receiver_async_destructor 995 stop_receiver)
      (loop_step (receive_message_call Little_Endian (\<lambda>_. 0) ''new'') receive_message_locked report_receiver stop_receiver)
      [Destroy, Step Lock, Destroy, Destroy, Step Report, Destroy] demo_tool) = Destroyed \<and>
   phase (life_run (receiver_async_destructor 995 stop_receiver)
      (loop_step (receive_message_call Little_Endian (\<lambda>_. 0) ''new'') receive_message_locked report_receiver stop_receiver)
      [Destroy, Step Lock, Destroy, Destroy, Step Report, Destroy] demo_busy_tool) = Joining_Loop"
proof -
  let ?es = "[Step Lock, Destroy, Destroy, Step Report, Destroy] :: (string, nat) inbox life_event list"
  have "subseq [Destroy, Destroy, Step Report, Destroy] ?es" by simp
  then show ?thesis
    using async_destructor_race [of demo_tool ?es 995 Little_Endian "\<lambda>_. 0" "''new''"]
      async_destructor_race [of demo_busy_tool ?es 995 Little_Endian "\<lambda>_. 0" "''new''"]
    by (simp add: demo_busy_tool_def demo_tool_def new_tool_def start_loop_def new_receiver_def)
qed

text \<open>An asynchronous object that was never started has no thread to ask whether it can be joined.\<close>

lemma async_never_started:
  "phase (life_run (async_destructor aborted stop) step [Destroy] (new_tool s w)) = Destructor_Crashed Null_Dereference"
  by (simp add: life_run_def async_destructor_def new_tool_def)

text \<open>
  Starting never throws: an address that could not be parsed has already failed the creation of the socket.
\<close>

lemma starts_do_not_throw:
  "fst (receiver_async_start asio endpoint p os) \<noteq> Inl f"
  "fst (npcap_receive_loop_start asio udpcap endpoint p os) \<noteq> Inl f"
  by (auto simp: receiver_async_start_def npcap_receive_loop_start_def make_endpoint_def
      CreateReceiveSocket_def NpcapCreateReceiveSocket_def Let_def split: prod.splits sum.splits option.splits if_splits)

end
