(* ===== verification/Samples.thy ===== *)
theory Samples
  imports Perftool_Loops Lossy_Network
begin

text \<open>
  The two sample programs (src/samples/ecaludp_sample/src/main.cpp and
  src/samples/ecaludp_sample_npcap/src/main.cpp): they send a quotation to themselves every half
  second, from three buffers, and print what they receive. The chain of completion handlers that sends
  and the one that receives share nothing but the console. Asio, udpcap, the texts of error
  codes (\<open>message_of\<close>) and of endpoints (\<open>address_of\<close>, \<open>port_of\<close>) are parameters.
\<close>

section \<open>The message\<close>

definition string_bytes :: "string \<Rightarrow> byte list" where
  "string_bytes = map (\<lambda>c. of_nat (of_char c))"

definition bytes_string :: "byte list \<Rightarrow> string" where
  "bytes_string = map (\<lambda>b. char_of (unat b))"

definition douglas_adams_buffer_1 :: string where
  "douglas_adams_buffer_1 = ''In the beginning the Universe was created.''"

definition douglas_adams_buffer_2 :: string where
  "douglas_adams_buffer_2 = '' ''"

definition douglas_adams_buffer_3 :: string where
  "douglas_adams_buffer_3 = ''This had made many people very angry and has been widely regarded as a bad move.''"

text \<open>Each string is a block of memory of its own.\<close>

definition sample_memory :: memory where
  "sample_memory b =
     string_bytes (if b = 0 then douglas_adams_buffer_1 else if b = 1 then douglas_adams_buffer_2
                   else douglas_adams_buffer_3)"

definition sample_buffers :: "const_buffer list" where
  "sample_buffers =
     [\<lparr>cb_data = User_Memory 0 0, cb_size = length douglas_adams_buffer_1\<rparr>,
      \<lparr>cb_data = User_Memory 1 0, cb_size = length douglas_adams_buffer_2\<rparr>,
      \<lparr>cb_data = User_Memory 2 0, cb_size = length douglas_adams_buffer_3\<rparr>]"

section \<open>The chains of handlers\<close>

fun sent_by :: "'ec send_action list \<Rightarrow> byte list list" where
  "sent_by [] = []"
| "sent_by (Send d # as) = d # sent_by as"
| "sent_by (Completion_Handler ec # as) = sent_by as"

text \<open>
  For each package: what asio answers to the datagrams, the time of the clock, and what the timer answers,
  \<open>None\<close> when it has not expired yet. The result are the datagrams and the text printed.
\<close>

fun send_package ::
    "host \<Rightarrow> ('ec \<Rightarrow> string) \<Rightarrow> 'ep Socket \<Rightarrow> (('ec option list \<times> int) \<times> 'ec option option) list \<Rightarrow> id_state \<Rightarrow>
     fault + byte list list \<times> string" where
  "send_package h message_of socket [] ids = Inr ([], [])"
| "send_package h message_of socket (((ecs, clock), timer) # rest) ids =
     (case async_send_to h sample_memory socket sample_buffers ecs clock ids of
        None \<Rightarrow> Inr ([], [])
      | Some (Inl f) \<Rightarrow> Inl f
      | Some (Inr (actions, ids)) \<Rightarrow>
          (case completion actions of
             None \<Rightarrow> Inr (sent_by actions, [])
           | Some (Some ec) \<Rightarrow> Inr (sent_by actions, ''Error sending: '' @ message_of ec @ newline)
           | Some None \<Rightarrow>
               (case timer of
                  None \<Rightarrow> Inr (sent_by actions, [])
                | Some (Some ec) \<Rightarrow> Inr (sent_by actions, ''Error waiting: '' @ message_of ec @ newline)
                | Some None \<Rightarrow>
                    (case send_package h message_of socket rest ids of
                       Inl f \<Rightarrow> Inl f
                     | Inr (wire, out) \<Rightarrow> Inr (sent_by actions @ wire, out)))))"

text \<open>The other sample has the same function once more.\<close>

fun npcap_send_package ::
    "host \<Rightarrow> ('ec \<Rightarrow> string) \<Rightarrow> 'ep Socket \<Rightarrow> (('ec option list \<times> int) \<times> 'ec option option) list \<Rightarrow> id_state \<Rightarrow>
     fault + byte list list \<times> string" where
  "npcap_send_package h message_of send_socket [] ids = Inr ([], [])"
| "npcap_send_package h message_of send_socket (((ecs, clock), timer) # rest) ids =
     (case async_send_to h sample_memory send_socket sample_buffers ecs clock ids of
        None \<Rightarrow> Inr ([], [])
      | Some (Inl f) \<Rightarrow> Inl f
      | Some (Inr (actions, ids)) \<Rightarrow>
          (case completion actions of
             None \<Rightarrow> Inr (sent_by actions, [])
           | Some (Some ec) \<Rightarrow> Inr (sent_by actions, ''Error sending: '' @ message_of ec @ newline)
           | Some None \<Rightarrow>
               (case timer of
                  None \<Rightarrow> Inr (sent_by actions, [])
                | Some (Some ec) \<Rightarrow> Inr (sent_by actions, ''Error waiting: '' @ message_of ec @ newline)
                | Some None \<Rightarrow>
                    (case npcap_send_package h message_of send_socket rest ids of
                       Inl f \<Rightarrow> Inl f
                     | Inr (wire, out) \<Rightarrow> Inr (sent_by actions @ wire, out)))))"

definition received_line :: "('ep \<Rightarrow> string) \<Rightarrow> ('ep \<Rightarrow> u16) \<Rightarrow> OwningBuffer \<Rightarrow> 'ep \<Rightarrow> string" where
  "received_line address_of port_of buffer sender_endpoint =
     (let received_string = bytes_string (buffer_bytes buffer)
      in ''Received '' @ to_string (buffer_size buffer) @ '' bytes from '' @ address_of sender_endpoint @ '':'' @
         to_string (unat (port_of sender_endpoint)) @ '': '' @ received_string @ newline)"

text \<open>Every receive is given a new endpoint object to fill.\<close>

function receive_package ::
    "host \<Rightarrow> (nat \<Rightarrow> byte) \<Rightarrow> ('ec \<Rightarrow> string) \<Rightarrow> ('ep \<Rightarrow> string) \<Rightarrow> ('ep \<Rightarrow> u16) \<Rightarrow> 'ep \<Rightarrow> 'ep Socket \<Rightarrow> ('ep, 'ec) inbox \<Rightarrow>
     fault + string" where
  "receive_package h pool message_of address_of port_of new_endpoint socket rs =
     (case async_receive_from h pool socket new_endpoint rs of
        Waiting socket \<Rightarrow> Inr []
      | Failed f \<Rightarrow> Inl f
      | Returned buffer ep (Some ec) socket rs \<Rightarrow> Inr (''Error receiving: '' @ message_of ec @ newline)
      | Returned None ep None socket rs \<Rightarrow> Inl Null_Dereference
      | Returned (Some buffer) ep None socket rs \<Rightarrow>
          (case receive_package h pool message_of address_of port_of new_endpoint socket rs of
             Inl f \<Rightarrow> Inl f
           | Inr out \<Rightarrow> Inr (received_line address_of port_of buffer ep @ out)))"
  by pat_completeness auto
termination
  by (relation "measure (\<lambda>(h, pool, message_of, address_of, port_of, new_endpoint, socket, rs). length rs)")
    (auto simp: async_receive_from_loop dest: receive_loop_rest)

declare receive_package.simps [simp del]

function npcap_receive_package ::
    "host \<Rightarrow> (nat \<Rightarrow> byte) \<Rightarrow> ('addr \<Rightarrow> 'ep) \<Rightarrow> ('ep \<Rightarrow> string) \<Rightarrow> ('ep \<Rightarrow> u16) \<Rightarrow> 'ep \<Rightarrow> 'ep SocketNpcap \<Rightarrow>
     'addr npcap_inbox \<Rightarrow> fault + string" where
  "npcap_receive_package h pool to_endpoint address_of port_of new_endpoint socket rs =
     (case npcap_async_receive_from h pool to_endpoint socket new_endpoint rs of
        Npcap_Waiting socket \<Rightarrow> Inr []
      | Npcap_Failed f \<Rightarrow> Inl f
      | Npcap_Returned buffer ep error socket rs \<Rightarrow>
          if is_error error then Inr (''Error receiving: '' @ ToString error @ newline)
          else
            (case buffer of
               None \<Rightarrow> Inl Null_Dereference
             | Some buffer \<Rightarrow>
                 (case npcap_receive_package h pool to_endpoint address_of port_of new_endpoint socket rs of
                    Inl f \<Rightarrow> Inl f
                  | Inr out \<Rightarrow> Inr (received_line address_of port_of buffer ep @ out))))"
  by pat_completeness auto
termination
  by (relation "measure (\<lambda>(h, pool, to_endpoint, address_of, port_of, new_endpoint, socket, rs). length rs)")
    (auto dest: npcap_async_rest)

declare npcap_receive_package.simps [simp del]

section \<open>main\<close>

text \<open>
  Up to the handlers: the text printed, and either the value returned or the sockets. The io_context
  runs for ever, as a work guard keeps it from ending.
\<close>

definition sample_main ::
    "('addr, 'os) asio \<Rightarrow> 'addr \<Rightarrow> 'os \<Rightarrow> (string \<times> (int + 'ep Socket)) \<times> 'os" where
  "sample_main asio loopback os =
     (let out = ''Starting...'' @ newline;
          socket = new_socket ecal_magic
      in (case perform asio (Open V4) os of
            (Some ec, os) \<Rightarrow> ((out @ ''Error opening socket: '' @ ec @ newline, Inl (- 1)), os)
          | (None, os) \<Rightarrow>
              (case perform asio (Bind loopback 14000) os of
                 (Some ec, os) \<Rightarrow> ((out @ ''Error binding socket: '' @ ec @ newline, Inl (- 1)), os)
               | (None, os) \<Rightarrow> ((out, Inr socket), os))))"

definition npcap_sample_main ::
    "('addr, 'os) asio \<Rightarrow> ('addr npcap_call \<Rightarrow> 'os \<Rightarrow> bool \<times> 'os) \<Rightarrow> 'addr \<Rightarrow> 'os \<Rightarrow>
     (string \<times> (int + 'ep Socket \<times> 'ep SocketNpcap)) \<times> 'os" where
  "npcap_sample_main asio udpcap loopback os =
     (let out = ''Starting...'' @ newline;
          send_socket = new_socket ecal_magic;
          receive_socket = new_socket_npcap ecal_magic
      in (case perform asio (Open V4) os of
            (Some ec, os) \<Rightarrow> ((out @ ''Error opening socket: '' @ ec @ newline, Inl (- 1)), os)
          | (None, os) \<Rightarrow>
              (let (bind_success, os) = udpcap (Npcap_Bind loopback 14000) os
               in if \<not> bind_success
                  then ((out @ ''Error binding socket'' @ newline, Inl (- 1)), os)
                  else ((out, Inr (send_socket, receive_socket)), os))))"

section \<open>What goes out\<close>

lemma bytes_string_inverse: "bytes_string (string_bytes s) = s"
proof -
  have "char_of (unat (of_nat (of_char c) :: byte)) = c" for c
    by (simp add: unat_of_nat take_bit_nat_eq_self of_char_of [symmetric] del: of_char_of)
  then show ?thesis by (simp add: bytes_string_def string_bytes_def comp_def)
qed

definition quotation :: string where
  "quotation = douglas_adams_buffer_1 @ douglas_adams_buffer_2 @ douglas_adams_buffer_3"

lemma sample_message: "message_bytes sample_memory sample_buffers = string_bytes quotation"
  by (simp add: message_bytes_def sample_buffers_def sample_memory_def buffer_content_def quotation_def
      string_bytes_def)

lemma length_quotation: "length quotation = 123"
  by (simp add: quotation_def douglas_adams_buffer_1_def douglas_adams_buffer_2_def douglas_adams_buffer_3_def)

lemma sample_input: "builder_input sample_memory sample_buffers 1448"
  by (simp add: builder_input_def user_buffers_def sample_buffers_def sample_memory_def string_bytes_def layout
      douglas_adams_buffer_1_def douglas_adams_buffer_2_def douglas_adams_buffer_3_def)

text \<open>The quotation fits into one datagram, which does not depend on the id.\<close>

definition sample_datagram :: "byte list" where
  "sample_datagram = wire_non_fragmented ecal_magic (string_bytes quotation)"

lemma sample_wire: "wire_datagrams ecal_magic i 1448 (string_bytes quotation) = [sample_datagram]"
  using length_quotation by (simp add: wire_datagrams_def sample_datagram_def string_bytes_def layout)

lemma sample_send:
  assumes "ecs = None # ecs'"
  shows "\<exists>ids'. async_send_to h sample_memory (new_socket ecal_magic) sample_buffers ecs clock ids =
    Some (Inr ([Send sample_datagram, Completion_Handler None], ids'))"
proof -
  obtain dl ids' where dl: "create_datagram_list h sample_buffers 1448 ecal_magic clock ids = Some (Inr (dl, ids'))"
    and "map (datagram_bytes sample_memory) dl = [sample_datagram]"
    using create_datagram_list_spec [OF sample_input, of h ecal_magic clock ids] sample_wire sample_message by metis
  then obtain d where "dl = [d]" "datagram_bytes sample_memory d = sample_datagram" by auto
  with dl assms show ?thesis by (simp add: async_send_to_def new_socket_def)
qed

lemma sample_sends:
  assumes "\<forall>((ecs, clock), timer) \<in> set todo. ecs \<noteq> [] \<and> hd ecs = None \<and> timer = Some None"
  shows "send_package h message_of (new_socket ecal_magic :: 'ep Socket) todo ids = Inr (replicate (length todo) sample_datagram, [])"
  using assms
proof (induction todo arbitrary: ids)
  case (Cons x todo)
  obtain ecs clock timer where x: "x = ((ecs, clock), timer)" by (metis prod.exhaust)
  with Cons.prems obtain ecs' where "ecs = None # ecs'" "timer = Some None" by (cases ecs) auto
  moreover from sample_send [OF this(1), of h clock ids] obtain ids' where
    "async_send_to h sample_memory (new_socket ecal_magic :: 'ep Socket) sample_buffers ecs clock ids =
      Some (Inr ([Send sample_datagram, Completion_Handler None], ids'))" by blast
  ultimately show ?case using Cons by (auto simp: x completion_def)
qed simp

lemma npcap_send_package_eq:
  "npcap_send_package h message_of socket todo ids = send_package h message_of socket todo ids"
  by (induction h message_of socket todo ids rule: send_package.induct)
    (auto split: option.split sum.split)

section \<open>What comes in\<close>

lemma sample_parse: "parse h sample_datagram = Whole (Some (string_bytes quotation))"
  and sample_passes: "passes ecal_magic sample_datagram" and sample_length: "length sample_datagram < 2 ^ 32"
  using length_quotation whole_datagram [of "string_bytes quotation"]
  by (simp_all add: sample_datagram_def string_bytes_def layout)

definition printed_quotations :: "('ep \<Rightarrow> string) \<Rightarrow> ('ep \<Rightarrow> u16) \<Rightarrow> 'ep \<Rightarrow> nat \<Rightarrow> string" where
  "printed_quotations address_of port_of ep n =
     concat (replicate n (''Received 123 bytes from '' @ address_of ep @ '':'' @
       to_string (unat (port_of ep)) @ '': '' @ quotation @ newline))"

lemma printed_quotations_simps [simp]:
  "printed_quotations address_of port_of ep 0 = []"
  "printed_quotations address_of port_of ep (Suc n) = ''Received 123 bytes from '' @ address_of ep @ '':'' @
     to_string (unat (port_of ep)) @ '': '' @ quotation @ newline @ printed_quotations address_of port_of ep n"
  by (simp_all add: printed_quotations_def)

lemma sample_receives:
  assumes "socket_inv s" "magic_header_bytes s = ecal_magic"
  shows "receive_package h pool message_of address_of port_of ne s (map (\<lambda>t. (t, Datagram sample_datagram ep)) ts) =
    Inr (printed_quotations address_of port_of ep (length ts))"
  using assms
proof (induction ts arbitrary: s)
  case Nil
  then show ?case by (subst receive_package.simps) (simp add: async_receive_from_loop)
next
  case (Cons t ts)
  have "passes (magic_header_bytes s) sample_datagram" using Cons.prems(2) sample_passes by simp
  from whole_handled [OF Cons.prems(1) this sample_parse sample_length, of h pool t ep] obtain b e s' where
    h: "socket_handler h pool s t sample_datagram ep = Inr (Some b, e, s')" "socket_inv s'" "valid_buffer b"
      "magic_header_bytes s' = magic_header_bytes s" "buffer_bytes b = string_bytes quotation" by blast
  have "buffer_size b = 123"
    using length_buffer_bytes [OF h(3)] h(5) length_quotation by (simp add: string_bytes_def)
  moreover have "to_string 123 = ''123''" by (simp add: to_string.simps char_of_def bit_Suc_0_iff)
  ultimately show ?case
    using Cons.IH [OF h(2)] h Cons.prems(2)
    by (subst receive_package.simps)
      (simp add: async_receive_from_loop received_line_def bytes_string_inverse)
qed

text \<open>The npcap sample prints what the other one prints.\<close>

lemma npcap_receive_package_eq:
  "npcap_receive_package h pool to_endpoint address_of port_of ne s rs =
     receive_package h pool ToString address_of port_of ne (as_socket s) (map (as_received to_endpoint) rs)"
proof (induction h pool to_endpoint address_of port_of ne s rs rule: npcap_receive_package.induct)
  case (1 h pool to_endpoint address_of port_of ne s rs)
  have o: "async_receive_from h pool (as_socket s) ne (map (as_received to_endpoint) rs) =
      outcome_as_socket (as_outcome to_endpoint (npcap_async_receive_from h pool to_endpoint s ne rs))"
    by (simp add: async_receive_from_loop npcap_async_loop receive_loop_as_socket)
  show ?case
  proof (cases "npcap_async_receive_from h pool to_endpoint s ne rs")
    case (Npcap_Returned b ep e s' rs')
    show ?thesis
    proof (cases b)
      case None
      with Npcap_Returned npcap_async_error [OF Npcap_Returned] o show ?thesis
        by (subst npcap_receive_package.simps, subst receive_package.simps) simp
    next
      case (Some buf)
      with 1 [OF Npcap_Returned] Npcap_Returned npcap_async_error [OF Npcap_Returned] o show ?thesis
        by (subst npcap_receive_package.simps, subst receive_package.simps) simp
    qed
  qed (use o in \<open>subst npcap_receive_package.simps, subst receive_package.simps, simp\<close>)+
qed

lemma sample_main_sockets:
  "sample_main asio loopback os = ((out, Inr socket), os') \<Longrightarrow> socket = new_socket ecal_magic"
  "npcap_sample_main asio udpcap loopback os = ((out, Inr (send_socket, receive_socket)), os') \<Longrightarrow>
     send_socket = new_socket ecal_magic \<and> receive_socket = new_socket_npcap ecal_magic"
  by (auto simp: sample_main_def npcap_sample_main_def Let_def split: option.splits prod.splits if_splits)

lemma as_socket_new: "as_socket (new_socket_npcap m) = new_socket m"
  by (simp add: as_socket_def new_socket_npcap_def new_socket_def)

text \<open>A datagram that udpcap returns without an error.\<close>

definition udpcap_received :: "byte list \<Rightarrow> 'addr \<Rightarrow> 'addr udpcap_result" where
  "udpcap_received d addr =
     \<lparr>u_error = \<lparr>u_code = Udpcap_OK, u_message = [], u_string = []\<rparr>, u_bytes = d, u_sender = addr\<rparr>"

text \<open>
  C28: the samples print their quotation. When the sockets could be created and asio accepts the
  datagrams, each package either sample sends is one datagram, the same every time. Whatever number of them
  arrives, on hosts of any byte order, both samples print one line for each: its length, its sender,
  and the three strings put together, unchanged. They run into no undefined behaviour and print
  nothing else.
\<close>

theorem samples_print_quotation:
  fixes socket send_socket :: "'ep Socket"
  assumes "sample_main asio loopback os = ((out, Inr socket), os1)"
    and "npcap_sample_main asio udpcap loopback os = ((out', Inr (send_socket, receive_socket)), os2)"
    and "\<forall>((ecs, clock), timer) \<in> set todo. ecs \<noteq> [] \<and> hd ecs = None \<and> timer = Some None"
  shows "\<exists>D. send_package h message_of socket todo ids = Inr (replicate (length todo) D, []) \<and>
    npcap_send_package h message_of send_socket todo ids = Inr (replicate (length todo) D, []) \<and>
    receive_package h' pool message_of address_of port_of ne socket (map (\<lambda>t. (t, Datagram D ep)) ts) =
      Inr (printed_quotations address_of port_of ep (length ts)) \<and>
    npcap_receive_package h' pool to_endpoint address_of port_of ne receive_socket
        (map (\<lambda>t. (t, udpcap_received D addr)) ts) =
      Inr (printed_quotations address_of port_of (to_endpoint addr) (length ts))"
proof -
  note s = sample_main_sockets(1) [OF assms(1)] sample_main_sockets(2) [OF assms(2)]
  have inv: "socket_inv (new_socket ecal_magic)" "magic_header_bytes (new_socket ecal_magic) = ecal_magic"
    by (simp_all add: socket_inv_def new_socket_def all_consistent_empty)
  have m: "as_received to_endpoint \<circ> (\<lambda>t. (t, udpcap_received sample_datagram addr)) =
      (\<lambda>t. (t, Datagram sample_datagram (to_endpoint addr)))"
    by (simp add: fun_eq_iff udpcap_received_def)
  show ?thesis
    by (intro exI [of _ sample_datagram])
      (simp add: s npcap_send_package_eq sample_sends [OF assms(3)] sample_receives [OF inv] npcap_receive_package_eq as_socket_new m)
qed

text \<open>Two packages are sent, and one of their datagrams arrives.\<close>

definition sample_asio :: "(nat, unit) asio" where
  "sample_asio = \<lparr>make_address = (\<lambda>s. Some 1), is_v4 = (\<lambda>a. True), is_multicast = (\<lambda>a. False), any_v4 = 0, any_v6 = 0,
     perform = (\<lambda>c os. (None, os))\<rparr>"

theorem samples_print_quotation_witness:
  "\<exists>D. send_package Little_Endian (\<lambda>ec :: nat. ''error'') (new_socket ecal_magic :: nat Socket)
       [(([None], 5), Some None), (([None], 6), Some None)] None = Inr ([D, D], []) \<and>
     receive_package Big_Endian (\<lambda>_. 0) (\<lambda>ec :: nat. ''error'') (\<lambda>ep. ''127.0.0.1'') (\<lambda>ep. 14001) 0
       (new_socket ecal_magic) [(\<lparr>clean_time = 7, access_time = 7\<rparr>, Datagram D (3 :: nat))] =
     Inr (printed_quotations (\<lambda>ep :: nat. ''127.0.0.1'') (\<lambda>ep. 14001) 3 1)"
proof -
  have "sample_main sample_asio 1 () = ((''Starting...'' @ newline, Inr (new_socket ecal_magic)), ())"
    "npcap_sample_main sample_asio (\<lambda>c os. (True, os)) 1 () =
      ((''Starting...'' @ newline, Inr (new_socket ecal_magic, new_socket_npcap ecal_magic)), ())"
    by (simp_all add: sample_main_def npcap_sample_main_def sample_asio_def)
  from samples_print_quotation [OF this, where h = Little_Endian and h' = Big_Endian and ids = None and ne = 0
      and message_of = "\<lambda>ec :: nat. ''error''" and pool = "\<lambda>_. 0" and address_of = "\<lambda>ep :: nat. ''127.0.0.1''"
      and port_of = "\<lambda>ep. 14001" and ep = 3 and ts = "[\<lparr>clean_time = 7, access_time = 7\<rparr>]"
      and todo = "[(([None], 5), Some None), (([None], 6), Some None)]" and to_endpoint = id and addr = 3]
  show ?thesis by (auto simp del: send_package.simps npcap_send_package.simps printed_quotations_simps)
qed

end
