(* ===== verification/Integration_Test.thy ===== *)
theory Integration_Test
  imports Samples
begin

text \<open>
  The test program src/samples/integration_test/src/main.cpp: it waits for one message and sends one to
  itself, with handlers that do nothing, while a thread runs the io_context, and ends when that has
  nothing left to do. The errors of opening and binding the socket are not looked at.
\<close>

definition message_to_send :: string where
  "message_to_send = ''Hello World!''"

definition hello_memory :: memory where
  "hello_memory b = string_bytes message_to_send"

definition hello_buffer :: const_buffer where
  "hello_buffer = \<lparr>cb_data = User_Memory 0 0, cb_size = length message_to_send\<rparr>"

text \<open>
  \<open>inbox\<close> is what asio's receive call returns one after the other, \<open>ecs\<close> what the sends complete
  with. \<open>None\<close>: \<^verbatim>\<open>main\<close> waits for ever, as an operation of the socket keeps
  \<^verbatim>\<open>io_context.run()\<close> from returning.
\<close>

definition integration_main ::
    "host \<Rightarrow> (nat \<Rightarrow> byte) \<Rightarrow> ('addr, 'os) asio \<Rightarrow> 'addr \<Rightarrow> 'ep \<Rightarrow> ('ep, 'ec) inbox \<Rightarrow> 'ec option list \<Rightarrow> int \<Rightarrow>
     id_state \<Rightarrow> 'os \<Rightarrow> (fault + int) option \<times> 'os" where
  "integration_main h pool asio loopback sender_endpoint inbox ecs clock ids os =
     (let socket = new_socket ecal_magic;
          (_, os) = perform asio (Open V4) os;
          (_, os) = perform asio (Bind loopback 14000) os;
          received = async_receive_from h pool socket sender_endpoint inbox
      in (case async_send_to h hello_memory socket [hello_buffer] ecs clock ids of
            None \<Rightarrow> None
          | Some (Inl f) \<Rightarrow> Some (Inl f)
          | Some (Inr (actions, ids)) \<Rightarrow>
              (case received of
                 Waiting socket \<Rightarrow> None
               | Failed f \<Rightarrow> Some (Inl f)
               | Returned buffer ep ec socket rest \<Rightarrow>
                   if completion actions = None then None else Some (Inr 0)), os))"

section \<open>When it ends\<close>

definition hello_datagram :: "byte list" where
  "hello_datagram = wire_non_fragmented ecal_magic (string_bytes message_to_send)"

lemma hello_message: "message_bytes hello_memory [hello_buffer] = string_bytes message_to_send"
  by (simp add: message_bytes_def buffer_content_def hello_buffer_def hello_memory_def string_bytes_def)

lemma hello_input: "builder_input hello_memory [hello_buffer] 1448"
  by (simp add: builder_input_def user_buffers_def hello_buffer_def hello_memory_def string_bytes_def layout
      message_to_send_def)

lemma hello_send:
  "\<exists>ids'. async_send_to h hello_memory (new_socket ecal_magic) [hello_buffer] (None # ecs) clock ids =
    Some (Inr ([Send hello_datagram, Completion_Handler None], ids'))"
proof -
  have "wire_datagrams ecal_magic (fst (next_message_id clock ids)) 1448 (string_bytes message_to_send) = [hello_datagram]"
    by (simp add: wire_datagrams_def hello_datagram_def string_bytes_def layout message_to_send_def)
  then obtain dl ids' where dl: "create_datagram_list h [hello_buffer] 1448 ecal_magic clock ids = Some (Inr (dl, ids'))"
    and "map (datagram_bytes hello_memory) dl = [hello_datagram]"
    using create_datagram_list_spec [OF hello_input, of h ecal_magic clock ids] hello_message by metis
  then obtain d where "dl = [d]" "datagram_bytes hello_memory d = hello_datagram" by auto
  with dl show ?thesis by (simp add: async_send_to_def new_socket_def)
qed

text \<open>Datagrams of others do not end the receive call.\<close>

lemma junk_dropped:
  assumes "\<forall>(t, d, ep) \<in> set junk. \<not> passes (magic_header_bytes s) d" "socket_inv s"
  shows "\<exists>s'. async_receive_from h pool s ne (map (\<lambda>(t, d, ep). (t, Datagram d ep)) junk @ rs) =
      async_receive_from h pool s' ne rs \<and> magic_header_bytes s' = magic_header_bytes s \<and> socket_inv s'"
  using assms
proof (induction junk arbitrary: s)
  case (Cons x junk)
  obtain t d ep where x: "x = (t, d, ep)" by (metis prod.exhaust)
  from Cons.prems x obtain e where e: "socket_handle_datagram h pool s t d ep (error_of_code GENERIC_ERROR) =
      Inr (None, e, clean t s)"
    using socket_handle_drops [of s d h pool t ep "error_of_code GENERIC_ERROR"] by auto
  have "socket_inv (clean t s)" using Cons.prems(2) all_consistent_clean by (auto simp: socket_inv_def)
  with Cons.IH [of "clean t s"] Cons.prems(1) x e show ?case by (auto simp: async_receive_from_def)
qed auto



end
