(* ===== verification/Spec2Isabelle.thy ===== *)
theory Spec2Isabelle
  imports Prelude Endian Platforms Error_Codes Raw_Memory Delivery Header_V6 Socket Socket_Api
    Async_Udpcap Socket_Npcap Npcap_Api Npcap_Requests Lossy_Network
    Perftool_Args Perftool_Sockets Perftool_Loops Perftool_Lifecycle Samples Integration_Test
begin

text \<open>
  \<^bold>\<open>The program.\<close> ecaludp sends messages of up to 4 GiB over UDP. A socket splits a message into
  datagrams: one datagram with the whole message when it fits, otherwise a fragmentation info
  followed by numbered fragments that share a random id. The receiving socket checks the magic bytes
  and the version, collects the fragments of each sender and id, and hands out the message when all
  have arrived; what stays incomplete for too long is dropped. There are two sockets, one on asio
  that sends and receives and one on udpcap that only receives, and a performance tool on top of both.

  \<^bold>\<open>The theories\<close>, in the order of the code's layers (file names are relative to src/ecaludp unless they
  start with samples):

  \<^item> \<open>Prelude\<close>: machine types, the arithmetic of size_t, std::to_string, the faults that stand for
    undefined behaviour and uncaught exceptions, lists, and the collection \<open>wire\<close>.
  \<^item> \<open>Endian\<close> (src/protocol/portable_endian.h): the macros on a little-endian and a big-endian host.
    The locale \<open>byte_codec\<close> is the interface of an integer field of a header; it is interpreted as
    \<open>le32\<close> on the macros.
  \<^item> \<open>Platforms\<close> (the same file): which branch the preprocessor chooses, and the macros of each branch
    over the functions of its platform, which are parameters.
  \<^item> \<open>Error_Codes\<close> (include/ecaludp/error.h): the error object; the codes are a linear order.
  \<^item> \<open>Raw_Memory\<close> (include/ecaludp/raw_memory.h): the buffer class over an explicit heap of
    blocks; \<open>exec\<close> runs any sequence of its operations on named objects.
  \<^item> \<open>Owning_Buffer\<close> (include/ecaludp/owning_buffer.h): a view into a container it keeps alive.
  \<^item> \<open>Header\<close> (src/protocol/header_common.h, header_v5.h): offsets, writing and reading.
  \<^item> \<open>Header_V6\<close> (src/protocol/header_v6.h): the structures of the next version, which the sockets refuse.
  \<^item> \<open>Datagram_Builder\<close> (src/protocol/datagram_builder_v5.h and .cpp, datagram_description.h): the id
    generator with its static state, and the loop that cuts the caller's buffers into fragments without
    copying. \<open>wire_datagrams\<close> is the description of the protocol it is compared with.
  \<^item> \<open>Reassembly\<close> (src/protocol/reassembly_v5.h and .cpp): the handlers of the three types of
    datagrams, the removal of old packages, and the copying together of a complete message.
  \<^item> \<open>Reassembly_Spec\<close>: an abstract receiver on parsed datagrams (\<open>spec_receive\<close>), the invariant
    \<open>consistent\<close>, and the refinement \<open>implements\<close> between the two.
  \<^item> \<open>Delivery\<close>: any number of messages, their datagrams in any order and interleaving.
  \<^item> \<open>Socket\<close> (include/ecaludp/socket.h, src/socket.cpp): sending, handling of datagrams, the
    receiving loops, each synchronous and asynchronous. The locale \<open>datagram_handler\<close> is what the loops
    need of a handler; \<open>sock\<close> interprets it.
  \<^item> \<open>Socket_Api\<close> (include/ecaludp/socket.h): the members that pass calls on to the asio socket, in both
    overloads, and sending a single buffer. The asio socket is an object with a state of its own.
  \<^item> \<open>Lossy_Network\<close>: the socket behind a network that loses, duplicates and reorders, with other
    senders who inject what they like. The invariant \<open>collected\<close> says that the abstract receiver has
    nothing but parts of messages that were sent under the keys of honest senders.
  \<^item> \<open>Async_Udpcap\<close> (src/async_udpcap_socket.h and .cpp): the queue of requests and its thread as a
    step relation; every block under the mutex is one step.
  \<^item> \<open>Socket_Npcap\<close> (include_with_udpcap/ecaludp/socket_npcap.h, src/socket_npcap.cpp): the other
    socket, whose duplicated handler interprets \<open>datagram_handler\<close> as \<open>npcap\<close>.
  \<^item> \<open>Npcap_Api\<close> (src/socket_npcap.cpp, src/async_udpcap_socket.h, src/npcap_helpers.cpp,
    samples/integration_test_npcap/src/main.cpp): the members that pass calls on to udpcap, with the
    conversion of addresses, and the program that binds such a socket.
  \<^item> \<open>Npcap_Requests\<close> (src/socket_npcap.cpp, src/async_udpcap_socket.cpp): the npcap socket and the queue
    of requests put together, with any number of requests at a time, as a run of events
    (\<open>request_run\<close>). The invariant \<open>request_inv\<close> accounts for every request and result.
  \<^item> \<open>Perftool_Args\<close> (samples/ecaludp_perftool/src/main.cpp, sender_parameters.h,
    receiver_parameters.h): the command line, with std::stoul and the conversions to smaller types.
  \<^item> \<open>Perftool_Sockets\<close> (socket_builder_asio.cpp, socket_builder_npcap.cpp): the calls that set up a
    socket, in a state of the operating system that answers them.
  \<^item> \<open>Perftool_Loops\<close> (sender*.cpp, receiver*.cpp): counters, reporting thread, loops and completion
    handlers. The locale \<open>counted_loop\<close> is what the statistics need of a loop; \<open>sender\<close>,
    \<open>receiver\<close>, \<open>async_sender\<close> and \<open>async_receiver\<close> interpret it.
  \<^item> \<open>Perftool_Lifecycle\<close> (the same files): constructors, start, the end of the loops, and the
    destructors as a run of events of the object's threads (\<open>life_run\<close>).
  \<^item> \<open>Samples\<close> (samples/ecaludp_sample/src/main.cpp, samples/ecaludp_sample_npcap/src/main.cpp): the
    sample programs.
  \<^item> \<open>Integration_Test\<close> (samples/integration_test/src/main.cpp): a program that sends itself a message.
  \<^item> this theory: properties from the command line and the sending loop down to the builder and up
    again to the counters of a receiver.

  \<^bold>\<open>How the code is translated.\<close> A class is a record, a method a function that returns the updated
  record. Undefined behaviour (null pointers, accesses outside an object, division by zero, double
  free) and uncaught exceptions are values of \<open>fault\<close>, error objects and error codes are values as
  well, so every early return is a branch. 32-bit values of the protocol are words and wrap; a
  size_t is a natural number below \<open>2 ^ 64\<close> whose operations wrap explicitly. A shared pointer
  is an option, and the memory it shares is part of the value: nothing is written through
  it after it has been shared.

  \<^bold>\<open>What the lemmas show.\<close> Codec and header: what is written on one host is read on any other. Raw
  memory: no sequence of operations reads, writes or frees outside its blocks, and destroying all
  objects leaves nothing allocated. Builder: it always returns, and returns exactly the described
  datagrams. Reassembly: each handler implements the abstract receiver, and the one case in which it
  runs into undefined behaviour is characterised exactly. Delivery and sockets: every message is handed
  out exactly once and unchanged, whatever the order and interleaving of its datagrams, and the
  four receiving loops agree; how a message is cut into buffers makes no difference. Platforms: hosts
  compiled with any branches understand each other. Asynchronous udpcap socket: order, progress, and the
  end of its thread; overlapping requests receive what a single one does, though one may overtake another.
  Lossy network: what is received from an honest sender was sent, whatever the network and other
  senders do, and a message whose datagrams arrive in time is delivered whatever else arrives.
  Performance tool: what main does for every command line, which calls set up a socket, that reports and
  counters add up in every interleaving, that the receiver counts what the sender has sent, and when the
  destructors return. Samples: what they print.

  \<^bold>\<open>Loops and bounds.\<close> Loops are recursive functions with proved termination, except for the
  fragmentation loop, a partial function whose termination for all inputs is a theorem
  (\<open>create_datagram_list_returns\<close>). No fuel is used. Receiving loops consume a list of what the network
  has delivered and wait at its end. The theorems on the builder hold for messages whose length and
  payload size per datagram add up to at most \<open>2 ^ 32\<close>; what happens beyond is a theorem of its own
  (\<open>needed_fragment_count_wraps\<close>).

  \<^bold>\<open>Parameters.\<close> asio, udpcap, the operating system and the clock are arguments: answers to sends,
  received datagrams with the clock readings, replies to the calls on a socket, the texts of
  exceptions. The recycling pool is the contents of fresh memory (\<open>pool\<close>).

  \<^bold>\<open>Not modelled.\<close> The members of socket.h that return a handle of the asio socket; a failing
  allocation inside the reassembly; the threads of asio, apart from the one that runs the completion
  handlers of the performance tool; the frequency in its printed line (a double) and the text when
  cancelling a socket fails; the aliases of the byte order constants in portable_endian.h; the test
  programs below tests, which check examples of what is proved here.
\<close>

section \<open>From one performance tool to the other\<close>

text \<open>Each successful send of the tool is a sending in the sense of \<open>Delivery\<close>.\<close>

lemma header_id_sent:
  assumes "valid_sending x" "fragmented x"
  shows "header_id h (hd (sent_datagrams x)) = sent_id x"
  using assms by (simp add: sent_datagrams_wire fragmented_def wire_datagrams_def wire_info_def wire Let_def)

lemma done_call_sending:
  assumes "builder_input mem message (max_udp_datagram_size socket)"
    and "r \<in> set (done_calls (loop_run (send_loop_call h mem socket message) (send_loop_locked n) report_sender
      stop_sender es (start_loop new_sender ids)))"
  shows "\<exists>x. valid_sending x \<and> s_magic x = magic_header_bytes socket \<and> s_max_size x = max_udp_datagram_size socket \<and>
    sent_message x = message_bytes mem message \<and> sent_datagrams x = snd r"
proof -
  from sender_results [OF assms(1), of h n es ids] assms(2) obtain clock ids' where
    r: "snd r = wire_datagrams (magic_header_bytes socket) (fst (next_message_id clock ids'))
      (max_udp_datagram_size socket) (message_bytes mem message)"
    unfolding Let_def by fastforce
  let ?x = "\<lparr>s_host = h, s_memory = mem, s_buffers = message, s_max_size = max_udp_datagram_size socket,
    s_magic = magic_header_bytes socket, s_clock = clock, s_ids = ids'\<rparr>"
  have v: "valid_sending ?x" using assms(1) by (simp add: valid_sending_def)
  from sent_datagrams_wire [OF v] r have "sent_datagrams ?x = snd r"
    by (simp add: sent_id_def sent_message_def)
  with v show ?thesis by (intro exI [of _ ?x]) (simp add: sent_message_def)
qed

lemma distinct_sent_ids:
  assumes x: "\<And>r. r \<in> set rs \<Longrightarrow> valid_sending (x r) \<and> s_max_size (x r) = max_size \<and>
      sent_message (x r) = msg \<and> sent_datagrams (x r) = snd r"
    and d: "distinct (map (\<lambda>(k, wire). header_id h (hd wire)) rs) \<or> length msg + sizeof_Header \<le> max_size"
  shows "distinct (map (\<lambda>(ep, y). (ep, sent_id y)) (filter (\<lambda>(ep, y). fragmented y) (map (\<lambda>r. (source, x r)) rs)))"
  using d
proof
  assume d: "distinct (map (\<lambda>(k, wire). header_id h (hd wire)) rs)"
  let ?rs = "filter (\<lambda>r. fragmented (x r)) rs"
  have "sent_id (x r) = header_id h (hd (snd r))" if "r \<in> set ?rs" for r
    using x [of r] header_id_sent [of "x r" h] that by simp
  then have "map (\<lambda>r. (source, sent_id (x r))) ?rs = map (Pair source) (map (\<lambda>(k, wire). header_id h (hd wire)) ?rs)"
    by (simp add: case_prod_unfold)
  moreover have "distinct (map (\<lambda>(k, wire). header_id h (hd wire)) ?rs)"
    using d by (rule distinct_map_filter)
  ultimately have "distinct (map (\<lambda>r. (source, sent_id (x r))) ?rs)"
    by (simp add: distinct_map inj_on_def)
  then show ?thesis by (simp add: filter_map comp_def)
next
  assume "length msg + sizeof_Header \<le> max_size"
  then have "filter (\<lambda>r. fragmented (x r)) rs = []"
    using x by (auto simp: filter_empty_conv fragmented_def)
  then show ?thesis by (simp add: filter_map comp_def)
qed

text \<open>
  C5: end to end. The synchronous sender runs in any interleaving with its statistics and whatever
  asio answers. When the datagrams of its successful sends reach a fresh receiver with the same magic
  bytes, in any order, within the age limit, and the ids of fragmented messages are distinct, the
  asynchronous receiver counts exactly as many messages, and the payload of that many.
\<close>

theorem perftool_end_to_end:
  fixes es :: "((nat \<Rightarrow> nat \<times> 'ec option) \<times> int) loop_event list"
  assumes "builder_input mem message (max_udp_datagram_size out_socket)"
    and "sys = loop_run (send_loop_call h mem out_socket message) (send_loop_locked n) report_sender stop_sender es
      (start_loop new_sender ids)"
    and "distinct (map (\<lambda>(k, wire). header_id h' (hd wire)) (done_calls sys)) \<or>
      length (message_bytes mem message) + sizeof_Header \<le> max_udp_datagram_size out_socket"
    and "mset (map (\<lambda>(t, d, ep). (ep, d)) ds) = mset (map (Pair source) (concat (map snd (done_calls sys))))"
    and "magic_header_bytes in_socket = magic_header_bytes out_socket" and "reassembly_v5 in_socket = Map.empty"
    and "\<forall>(t, d, ep) \<in> set ds. \<forall>(t', d', ep') \<in> set ds.
      clean_time t - access_time t' \<le> max_reassembly_age in_socket"
  shows "receive_message h' pool new_endpoint in_socket (map (\<lambda>(t, d, ep). (t, Datagram d ep)) ds) new_receiver =
    Inr (\<lparr>rcv_is_stopped = False,
          rcv_bytes_payload = int (length (message_bytes mem message) * length (done_calls sys)),
          messages_received = int (length (done_calls sys))\<rparr>, None)"
proof -
  have "\<forall>r \<in> set (done_calls sys). \<exists>x. valid_sending x \<and> s_magic x = magic_header_bytes out_socket \<and>
      s_max_size x = max_udp_datagram_size out_socket \<and> sent_message x = message_bytes mem message \<and>
      sent_datagrams x = snd r"
    using done_call_sending [OF assms(1)] unfolding assms(2) by blast
  then obtain x where x: "\<And>r. r \<in> set (done_calls sys) \<Longrightarrow> valid_sending (x r) \<and>
      s_magic (x r) = magic_header_bytes out_socket \<and> s_max_size (x r) = max_udp_datagram_size out_socket \<and>
      sent_message (x r) = message_bytes mem message \<and> sent_datagrams (x r) = snd r"
    by metis
  let ?sends = "map (\<lambda>r. (source, x r)) (done_calls sys)"
  have "\<forall>(ep, y) \<in> set ?sends. valid_sending y \<and> s_magic y = magic_header_bytes in_socket"
    using x assms(5) by auto
  moreover have "distinct (map (\<lambda>(ep, y). (ep, sent_id y)) (filter (\<lambda>(ep, y). fragmented y) ?sends))"
    by (rule distinct_sent_ids [OF _ assms(3)]) (use x in blast)
  moreover have "map (\<lambda>(ep, y). map (Pair ep) (sent_datagrams y)) ?sends =
      map (map (Pair source)) (map snd (done_calls sys))"
    using x by simp
  then have "mset (map (\<lambda>(t, d, ep). (ep, d)) ds) = mset (concat (map (\<lambda>(ep, y). map (Pair ep) (sent_datagrams y)) ?sends))"
    by (simp only: assms(4) map_concat)
  moreover have total: "map (\<lambda>(ep, y). length (sent_message y)) ?sends =
      map (\<lambda>r. length (message_bytes mem message)) (done_calls sys)"
    using x by simp
  have "sum_list (map (\<lambda>(ep, y). length (sent_message y)) ?sends) =
      length (message_bytes mem message) * length (done_calls sys)"
    unfolding total by (simp add: sum_list_triv mult.commute)
  ultimately show ?thesis
    using receive_message_delivers [of ?sends in_socket ds h' pool new_endpoint] assms(6,7) by simp
qed

lemma demo_send_call:
  "\<exists>sent wire ids. send_loop_call Little_Endian demo_memory demo_socket demo_buffers (\<lambda>_. (30, None :: 'ec option), 5) None =
     (Call_Done (sent, wire), ids)"
proof -
  have "accepted (\<lambda>_. (30, None :: 'ec option)) 0 n = n" for n
    by (simp add: accepted_def takeWhile_eq_all_conv [THEN iffD2])
  moreover have "builder_input demo_memory demo_buffers (max_udp_datagram_size demo_socket)"
    using demo_input by simp
  note send_to_spec [OF this refl refl, of Little_Endian "\<lambda>_. (30, None :: 'ec option)" None 5 None]
  ultimately show ?thesis by (auto simp: send_loop_call_def)
qed

theorem perftool_end_to_end_witness:
  "\<exists>sys. sys = loop_run (send_loop_call Little_Endian demo_memory demo_socket demo_buffers) (send_loop_locked 8)
       report_sender stop_sender [Call (\<lambda>_. (30, None :: nat option), 5), Lock] (start_loop new_sender None) \<and>
     length (done_calls sys) = 1 \<and>
     receive_message Big_Endian (\<lambda>_. 0) ''new'' (new_socket (1, 2, 3, 4))
       (map (\<lambda>d. (\<lparr>clean_time = 7, access_time = 7\<rparr>, Datagram d ''sender'')) (rev (concat (map snd (done_calls sys))))
          :: (string, nat) inbox) new_receiver =
     Inr (\<lparr>rcv_is_stopped = False, rcv_bytes_payload = 8, messages_received = 1\<rparr>, None)"
proof -
  define sys where "sys = loop_run (send_loop_call Little_Endian demo_memory demo_socket demo_buffers)
    (send_loop_locked 8) report_sender stop_sender [Call (\<lambda>_. (30, None :: nat option), 5), Lock]
    (start_loop new_sender None)"
  obtain sent wire ids where c: "send_loop_call Little_Endian demo_memory demo_socket demo_buffers
      (\<lambda>_. (30, None :: nat option), 5) None = (Call_Done (sent, wire), ids)"
    using demo_send_call by blast
  have l: "length (done_calls sys) = 1"
    by (simp add: sys_def loop_run_def start_loop_def c send_loop_locked_def new_sender_def)
  then have d: "distinct (map (\<lambda>(k, wire). header_id Big_Endian (hd wire)) (done_calls sys))"
    by (cases "done_calls sys") auto
  let ?ds = "map (\<lambda>d. (\<lparr>clean_time = 7, access_time = 7\<rparr>, d, ''sender'')) (rev (concat (map snd (done_calls sys))))"
  have "mset (map (\<lambda>(t, d, ep). (ep, d)) ?ds) = mset (map (Pair ''sender'') (concat (map snd (done_calls sys))))"
    by (simp add: comp_def rev_map [symmetric] del: mset_map)
  moreover have "builder_input demo_memory demo_buffers (max_udp_datagram_size demo_socket)"
    using demo_input by simp
  ultimately have "receive_message Big_Endian (\<lambda>_. 0) ''new'' (new_socket (1, 2, 3, 4))
      (map (\<lambda>(t, d, ep). (t, Datagram d ep)) ?ds :: (string, nat) inbox) new_receiver =
    Inr (\<lparr>rcv_is_stopped = False, rcv_bytes_payload = 8, messages_received = 1\<rparr>, None)"
    using perftool_end_to_end [OF _ sys_def disjI1 [OF d], of ?ds "''sender''" "new_socket (1, 2, 3, 4)" "\<lambda>_. 0" "''new''"] l
    by (auto simp: new_socket_def demo_message)
  with l show ?thesis by (intro exI [of _ sys]) (simp add: sys_def comp_def)
qed

section \<open>A datagram size no header fits into\<close>

lemma small_size_throws:
  assumes "max_udp_datagram_size socket \<le> sizeof_Header"
  shows "loop_thread (loop_run (send_loop_call h mem socket message) (send_loop_locked n) report_sender stop_sender
      [Call i] (start_loop new_sender ids)) = Crashed (Invalid_Argument ''max_datagram_size is too small'')"
  using assms
  by (cases i) (simp add: loop_run_def start_loop_def send_loop_call_def send_to_def create_datagram_list_def)

lemma max_size_option:
  assumes "m < 2 ^ 31" and "32 \<le> w" and "no_option arg0"
  shows "\<exists>sp. perftool_main w what en [arg0, ''send'', ''-m'', to_string m] = Start (SenderSync sp) \<and>
    s_max_udp_datagram_size sp = int m"
proof -
  let ?args = "[arg0, ''send'', ''-m'', to_string m]"
  have "m < 2 ^ w" using assms(1) power_increasing [OF assms(2), of "2 :: nat"] by simp
  then have stoul: "stoul w (to_string m) = Inr m" by (rule stoul_to_string)
  have o: "option_value ''-m'' ''--max-udp-datagram-size'' ?args = Some (Some (to_string m))"
    "option_value ''--ip'' ''-i'' ?args = None" "option_value ''--port'' ''-p'' ?args = None"
    "option_value ''-s'' ''--size'' ?args = None" "option_value ''--buffer-size'' ''-b'' ?args = None"
    using assms(3) by (simp_all add: option_value_def find_option_def no_option_neq no_option_to_string)
  have "options_ok w ?args"
    using \<open>m < 2 ^ w\<close> by (simp add: options_ok_def o option_ok_def numeric_def stoul)
  moreover have "''-h'' \<notin> set ?args" "''--help'' \<notin> set ?args"
    using assms(3) by (simp_all add: no_option_neq no_option_to_string)
  ultimately have "perftool_main w what en ?args = Start (SenderSync (fst (given_parameters w ?args)))"
    using perftool_main_cases [of ?args w what en]
    by (simp add: parse_implementation_def started_for_def split: prod.split)
  moreover have "s_max_udp_datagram_size (fst (given_parameters w ?args)) = int m"
    using assms(1) by (simp add: given_parameters_def Let_def o number_of_def stoul as_int_small)
  ultimately show ?thesis by blast
qed

lemma send_loop_start_size:
  assumes "send_loop_start asio sp os = (Inr (socket, message), os')" and "0 < s_max_udp_datagram_size sp"
  shows "max_udp_datagram_size socket = nat (s_max_udp_datagram_size sp) \<and>
    magic_header_bytes socket = ecal_magic \<and> length message = s_message_size sp"
  using assms
  by (auto simp: send_loop_start_def CreateSendSocket_def new_socket_def set_max_udp_datagram_size_def Let_def
      split: prod.splits sum.splits option.splits if_splits)

text \<open>
  C36: a small datagram size ends the program. A maximum datagram size from 1 to 24 on the command
  line is accepted and starts the synchronous sender. When its socket could be created, the first
  \<^verbatim>\<open>send_to\<close> throws an exception that nothing in the sending thread catches.
\<close>

theorem small_datagram_size_crashes:
  assumes "0 < m" and "m \<le> sizeof_Header" and "32 \<le> w" and "no_option arg0"
  shows "\<exists>sp. perftool_main w what en [arg0, ''send'', ''-m'', to_string m] = Start (SenderSync sp) \<and>
    (\<forall>socket msg os'. send_loop_start asio sp os = (Inr (socket, msg), os') \<longrightarrow>
      loop_thread (loop_run (send_loop_call h mem socket message) (send_loop_locked (length msg)) report_sender
          stop_sender [Call i] (start_loop new_sender ids)) =
        Crashed (Invalid_Argument ''max_datagram_size is too small''))"
proof -
  have "m < 2 ^ 31" using assms(2) by (simp add: sizeof_Header_def)
  then obtain sp where sp: "perftool_main w what en [arg0, ''send'', ''-m'', to_string m] = Start (SenderSync sp)"
      "s_max_udp_datagram_size sp = int m"
    using max_size_option [OF _ assms(3,4)] by blast
  have "max_udp_datagram_size socket \<le> sizeof_Header"
    if "send_loop_start asio sp os = (Inr (socket, msg), os')" for socket msg os'
    using send_loop_start_size [OF that] sp(2) assms(1,2) by simp
  then show ?thesis
    using sp(1) by (intro exI [of _ sp]) (auto intro: small_size_throws)
qed

text \<open>An operating system on which every call succeeds.\<close>

definition demo_asio :: "(string, unit) asio" where
  "demo_asio = \<lparr>make_address = Some, is_v4 = (\<lambda>_. True), is_multicast = (\<lambda>_. False),
     any_v4 = ''0.0.0.0'', any_v6 = ''::'', perform = (\<lambda>_ os. (None, os))\<rparr>"

theorem small_datagram_size_crashes_witness:
  "\<exists>sp socket. perftool_main 64 (\<lambda>_. []) True [''p'', ''send'', ''-m'', to_string 24] = Start (SenderSync sp) \<and>
     send_loop_start demo_asio sp () = (Inr (socket :: string Socket, []), ()) \<and>
     loop_thread (loop_run (send_loop_call Little_Endian demo_memory socket demo_buffers) (send_loop_locked 0)
         report_sender stop_sender [Call (demo_answer, 5)] (start_loop new_sender None)) =
       Crashed (Invalid_Argument ''max_datagram_size is too small'')"
proof -
  obtain sp where sp: "perftool_main 64 (\<lambda>_. []) True [''p'', ''send'', ''-m'', to_string 24] = Start (SenderSync sp)"
    and run: "\<And>socket :: string Socket. \<And>msg. send_loop_start demo_asio sp () = (Inr (socket, msg), ()) \<Longrightarrow>
      loop_thread (loop_run (send_loop_call Little_Endian demo_memory socket demo_buffers) (send_loop_locked (length msg))
          report_sender stop_sender [Call (demo_answer, 5)] (start_loop new_sender None)) =
        Crashed (Invalid_Argument ''max_datagram_size is too small'')"
    using small_datagram_size_crashes [of 24 64 "''p''" "\<lambda>_. []" True demo_asio "()" Little_Endian demo_memory
        demo_buffers "(demo_answer, 5)" None]
    by (auto simp: sizeof_Header_def no_option_def)
  have "s_message_size sp = 0"
    using sp perftool_main_cases [of "[''p'', ''send'', ''-m'', to_string 24]" 64 "\<lambda>_. []" True]
    by (auto simp: no_option_neq no_option_to_string parse_implementation_def started_for_def given_parameters_def
        option_value_def find_option_def Let_def split: if_splits prod.splits)
  then obtain socket :: "string Socket" where "send_loop_start demo_asio sp () = (Inr (socket, []), ())"
    by (simp add: send_loop_start_def CreateSendSocket_def demo_asio_def Let_def)
  with sp run show ?thesis by force
qed

end
